theory Spec2Isabelle
  imports Complex_Main "HOL-Library.Word"
begin

unbundle bit_operations_syntax

section \<open>Data model\<close>

text \<open>
  The program is one C++ file, \<^verbatim>\<open>src/VulkanTest/main.cpp\<close>. Its decisions read
  what the Vulkan driver and GLFW report. Everything the driver reports about one
  physical device is collected in the record \<open>PhysicalDevice\<close>; everything else the
  driver and the windowing library answer is collected in the record \<open>Driver\<close>.

  Machine integers: \<^verbatim>\<open>uint32_t\<close> and \<^verbatim>\<open>VkBool32\<close> are \<open>32 word\<close>. The C++ \<^verbatim>\<open>int\<close>
  that holds a device score is a \<open>32 word\<close> read through \<open>sint\<close> (two's complement,
  32 bits, as on every platform Vulkan runs on); adding a \<^verbatim>\<open>uint32_t\<close> to it wraps.
  The \<^verbatim>\<open>int\<close> that counts queue families starts at 0 and is incremented once per
  family, so it is modelled as a mathematical integer (it cannot overflow with fewer
  than \<open>2 ^ 31\<close> families); the sentinel \<open>-1\<close> of the source is kept.
\<close>

type_synonym uint32_t = "32 word"
type_synonym VkBool32 = "32 word"
type_synonym cint = "32 word"

text \<open>\<^verbatim>\<open>struct QueueFamilyIndices\<close> (lines 63-70).\<close>

record QueueFamilyIndices =
  graphicsFamily :: int
  presentFamily :: int

definition isComplete :: "QueueFamilyIndices \<Rightarrow> bool" where
  "isComplete indices = (0 \<le> graphicsFamily indices \<and> 0 \<le> presentFamily indices)"

text \<open>The two fields of \<^verbatim>\<open>VkQueueFamilyProperties\<close> that the program reads.\<close>

record VkQueueFamilyProperties =
  queueFlags :: uint32_t
  queueCount :: uint32_t

text \<open>
  Modelled from the spec: the macro \<^verbatim>\<open>VK_QUEUE_GRAPHICS_BIT\<close> comes from the Vulkan
  header, which is not part of the repository. It is the bit of the "capability
  bitmask on the family" that stands for graphics submission; the header gives it the
  value \<^verbatim>\<open>0x00000001\<close>. The general theorems below hold for any value; only the
  concrete devices depend on it.
\<close>

definition VK_QUEUE_GRAPHICS_BIT :: uint32_t where
  "VK_QUEUE_GRAPHICS_BIT = 1"

datatype VkPhysicalDeviceType =
  VK_PHYSICAL_DEVICE_TYPE_OTHER
  | VK_PHYSICAL_DEVICE_TYPE_INTEGRATED_GPU
  | VK_PHYSICAL_DEVICE_TYPE_DISCRETE_GPU
  | VK_PHYSICAL_DEVICE_TYPE_VIRTUAL_GPU
  | VK_PHYSICAL_DEVICE_TYPE_CPU

text \<open>
  What the driver reports about one physical device, for the surface of the
  application:
  \<^item> \<open>deviceID\<close>, \<open>deviceType\<close>, \<open>maxImageDimension2D\<close>: from
    \<^verbatim>\<open>vkGetPhysicalDeviceProperties\<close>;
  \<^item> \<open>geometryShader\<close>: from \<^verbatim>\<open>vkGetPhysicalDeviceFeatures\<close>;
  \<^item> \<open>queueFamilies\<close>: from \<^verbatim>\<open>vkGetPhysicalDeviceQueueFamilyProperties\<close>, in the
    driver's order;
  \<^item> \<open>surfaceSupport\<close>: the answers of \<^verbatim>\<open>vkGetPhysicalDeviceSurfaceSupportKHR\<close>, by
    queue family index;
  \<^item> \<open>deviceExtensions\<close>: the extension names from
    \<^verbatim>\<open>vkEnumerateDeviceExtensionProperties\<close>;
  \<^item> \<open>surfaceFormats\<close>, \<open>surfacePresentModes\<close>: from
    \<^verbatim>\<open>vkGetPhysicalDeviceSurfaceFormatsKHR\<close> and
    \<^verbatim>\<open>vkGetPhysicalDeviceSurfacePresentModesKHR\<close> (only their emptiness is read, so
    the entries are the raw enum values).
\<close>

record PhysicalDevice =
  deviceID :: uint32_t
  deviceType :: VkPhysicalDeviceType
  maxImageDimension2D :: uint32_t
  geometryShader :: VkBool32
  queueFamilies :: "VkQueueFamilyProperties list"
  surfaceSupport :: "VkBool32 list"
  deviceExtensions :: "string list"
  surfaceFormats :: "(uint32_t \<times> uint32_t) list"
  surfacePresentModes :: "uint32_t list"

section \<open>Queue Family Resolver\<close>

text \<open>
  \<^verbatim>\<open>vkGetPhysicalDeviceSurfaceSupportKHR(physicalDevice, i, surface, &presentSupport)\<close>:
  the source sets \<^verbatim>\<open>presentSupport = false\<close> before the call, so an index the
  driver has no answer for leaves it false.
\<close>

definition vkGetPhysicalDeviceSurfaceSupportKHR :: "PhysicalDevice \<Rightarrow> nat \<Rightarrow> VkBool32" where
  "vkGetPhysicalDeviceSurfaceSupportKHR dev i =
     (if i < length (surfaceSupport dev) then surfaceSupport dev ! i else 0)"

text \<open>
  The body of the loop of \<^verbatim>\<open>findQueueFamilies\<close> (lines 322-325), before the test
  of \<^verbatim>\<open>isComplete\<close>. Both assignments are plain assignments: a later family that
  qualifies overwrites the index of an earlier one.
\<close>

definition findQueueFamilies_body ::
  "PhysicalDevice \<Rightarrow> int \<Rightarrow> VkQueueFamilyProperties \<Rightarrow> QueueFamilyIndices \<Rightarrow> QueueFamilyIndices" where
  "findQueueFamilies_body dev i queueFamily indices =
     (let indices1 =
            (if 0 < queueCount queueFamily \<and> queueFlags queueFamily AND VK_QUEUE_GRAPHICS_BIT \<noteq> 0
             then indices\<lparr>graphicsFamily := i\<rparr> else indices);
          presentSupport = vkGetPhysicalDeviceSurfaceSupportKHR dev (nat i)
      in (if 0 < queueCount queueFamily \<and> presentSupport \<noteq> 0
          then indices1\<lparr>presentFamily := i\<rparr> else indices1))"

text \<open>The range-for loop (lines 321-328): \<^verbatim>\<open>break\<close> when complete, else \<^verbatim>\<open>i++\<close>.\<close>

fun findQueueFamilies_loop ::
  "PhysicalDevice \<Rightarrow> VkQueueFamilyProperties list \<Rightarrow> int \<Rightarrow> QueueFamilyIndices \<Rightarrow> QueueFamilyIndices" where
  "findQueueFamilies_loop dev [] i indices = indices"
| "findQueueFamilies_loop dev (queueFamily # rest) i indices =
     (let indices' = findQueueFamilies_body dev i queueFamily indices
      in if isComplete indices' then indices'
         else findQueueFamilies_loop dev rest (i + 1) indices')"

definition findQueueFamilies :: "PhysicalDevice \<Rightarrow> QueueFamilyIndices" where
  "findQueueFamilies dev =
     findQueueFamilies_loop dev (queueFamilies dev) 0 \<lparr>graphicsFamily = - 1, presentFamily = - 1\<rparr>"

section \<open>Device Extension Validator and Swapchain Support Prober\<close>

text \<open>
  Modelled from the spec: the macro \<^verbatim>\<open>VK_KHR_SWAPCHAIN_EXTENSION_NAME\<close> comes from the
  Vulkan header, which is not part of the repository; it is the name of the one
  member of the "fixed required extension name set", \<^verbatim>\<open>"VK_KHR_swapchain"\<close> in the
  header. The general theorems below hold for any name.
\<close>

definition VK_KHR_SWAPCHAIN_EXTENSION_NAME :: string where
  "VK_KHR_SWAPCHAIN_EXTENSION_NAME = ''VK_KHR_swapchain''"

definition requestedDeviceExtensions :: "string list" where
  "requestedDeviceExtensions = [VK_KHR_SWAPCHAIN_EXTENSION_NAME]"

text \<open>
  \<^verbatim>\<open>checkPhysicalDeviceExtensionSupport\<close> (lines 366-377): a \<^verbatim>\<open>std::set<std::string>\<close>
  built from the requested names, from which the name of every available extension
  is erased in turn; the result is whether the set is empty at the end.
\<close>

fun checkPhysicalDeviceExtensionSupport_loop :: "string list \<Rightarrow> string set \<Rightarrow> string set" where
  "checkPhysicalDeviceExtensionSupport_loop [] requestedExtenstions = requestedExtenstions"
| "checkPhysicalDeviceExtensionSupport_loop (extensionName # rest) requestedExtenstions =
     checkPhysicalDeviceExtensionSupport_loop rest (requestedExtenstions - {extensionName})"

definition checkPhysicalDeviceExtensionSupport :: "PhysicalDevice \<Rightarrow> bool" where
  "checkPhysicalDeviceExtensionSupport dev =
     (checkPhysicalDeviceExtensionSupport_loop (deviceExtensions dev) (set requestedDeviceExtensions) = {})"

text \<open>
  \<^verbatim>\<open>struct SwapChainSupportDetails\<close> and \<^verbatim>\<open>querySwapChainSupport\<close> (lines 73-77 and
  380-404). A vector stays empty when the driver reports a count of zero. The
  \<^verbatim>\<open>capabilities\<close> member is filled in by the driver and read by no decision of
  the bootstrap sequence; it is left out.
\<close>

record SwapChainSupportDetails =
  formats :: "(uint32_t \<times> uint32_t) list"
  presentModes :: "uint32_t list"

definition querySwapChainSupport :: "PhysicalDevice \<Rightarrow> SwapChainSupportDetails" where
  "querySwapChainSupport dev =
     \<lparr>formats = (if length (surfaceFormats dev) \<noteq> 0 then surfaceFormats dev else []),
      presentModes = (if length (surfacePresentModes dev) \<noteq> 0 then surfacePresentModes dev else [])\<rparr>"

section \<open>Candidate Scorer\<close>

text \<open>
  \<^verbatim>\<open>ratePhysicalDevice\<close> (lines 407-440). The score is a C++ \<^verbatim>\<open>int\<close>; the two
  additions come first and wrap at 32 bits, the four tests that return 0 follow in
  the order of the source.
\<close>

definition ratePhysicalDevice :: "PhysicalDevice \<Rightarrow> cint" where
  "ratePhysicalDevice dev =
     (let score0 = (0 :: cint);
          queueFamilyIndices = findQueueFamilies dev;
          score1 = (if deviceType dev = VK_PHYSICAL_DEVICE_TYPE_DISCRETE_GPU
                    then score0 + 1000 else score0);
          score2 = score1 + maxImageDimension2D dev
      in if geometryShader dev = 0 then 0
         else if \<not> isComplete queueFamilyIndices then 0
         else if \<not> checkPhysicalDeviceExtensionSupport dev then 0
         else (let swapChainSupport = querySwapChainSupport dev
               in if formats swapChainSupport = [] \<or> presentModes swapChainSupport = [] then 0
                  else score2))"

section \<open>Device Selector\<close>

datatype error =
  UnsupportedLayer
  | UnsupportedExtension
  | ContextCreationFailed
  | DebugSinkSetupFailed
  | SurfaceCreationFailed
  | NoDeviceDetected
  | NoSuitableDevice
  | LogicalDeviceCreationFailed

text \<open>
  Every failure is a \<^verbatim>\<open>throw std::runtime_error(...)\<close> in the source; the
  constructors carry the names the specification gives them. In the order above the
  messages are: "Validation layer requested but not available", "Extension requested
  but not available", "Failed to create instance!", "Failed to set up debug
  callback!", "Failed to create window surface.", "Failed to detect GPUs with Vulkan
  support.", "Failed to find a suitable GPU", "Failed to create logical device".
\<close>

text \<open>
  \<^verbatim>\<open>std::multimap<int, VkPhysicalDevice>\<close>: the entries in key order (keys compared
  as signed integers), entries with equal keys in the order of their insertion.
  \<^verbatim>\<open>insert\<close> puts the new entry at the upper bound of its key, that is after every
  entry whose key is less or equal. \<^verbatim>\<open>rbegin()\<close> is the last entry.
\<close>

type_synonym multimap = "(cint \<times> PhysicalDevice) list"

definition multimap_insert :: "cint \<times> PhysicalDevice \<Rightarrow> multimap \<Rightarrow> multimap" where
  "multimap_insert kv m =
     takeWhile (\<lambda>e. sint (fst e) \<le> sint (fst kv)) m @ kv #
     dropWhile (\<lambda>e. sint (fst e) \<le> sint (fst kv)) m"

text \<open>The loop over the enumerated devices (lines 462-472).\<close>

fun pickPhysicalDevice_loop :: "PhysicalDevice list \<Rightarrow> multimap \<Rightarrow> multimap" where
  "pickPhysicalDevice_loop [] physicalDevicesAvailable = physicalDevicesAvailable"
| "pickPhysicalDevice_loop (dev # rest) physicalDevicesAvailable =
     pickPhysicalDevice_loop rest
       (multimap_insert (ratePhysicalDevice dev, dev) physicalDevicesAvailable)"

text \<open>
  \<^verbatim>\<open>pickPhysicalDevice\<close> (lines 443-482), as a function of the list that
  \<^verbatim>\<open>vkEnumeratePhysicalDevices\<close> returns. The result is the value it stores in the
  member \<^verbatim>\<open>physicalDevice\<close>, or the exception it throws. The multimap is not empty
  where \<^verbatim>\<open>rbegin()\<close> is read: the empty enumeration has thrown before.
\<close>

definition pickPhysicalDevice :: "PhysicalDevice list \<Rightarrow> error + PhysicalDevice" where
  "pickPhysicalDevice devs =
     (if length devs = 0 then Inl NoDeviceDetected
      else (let physicalDevicesAvailable = pickPhysicalDevice_loop devs []
            in if 0 < sint (fst (last physicalDevicesAvailable))
               then Inr (snd (last physicalDevicesAvailable))
               else Inl NoSuitableDevice))"

section \<open>The driver, the application state and the calls that create and destroy\<close>

datatype VkResult =
  VK_SUCCESS
  | VK_ERROR_EXTENSION_NOT_PRESENT
  | VK_ERROR_INITIALIZATION_FAILED

text \<open>
  The arguments of \<^verbatim>\<open>vkCreateInstance\<close> and \<^verbatim>\<open>vkCreateDevice\<close> that the program
  fills in. A count and a pointer to an array are one list. The structure
  \<^verbatim>\<open>VkPhysicalDeviceFeatures physicalDeviceFeatures = {}\<close> that
  \<^verbatim>\<open>pEnabledFeatures\<close> points to is zero-initialised; it is modelled by the list of
  the names of the features whose flag is set.
\<close>

record VkInstanceCreateInfo =
  ppEnabledLayerNames :: "string list"
  ppEnabledExtensionNames :: "string list"

record VkDeviceQueueCreateInfo =
  queueFamilyIndex :: uint32_t
  queueCount_req :: uint32_t
  pQueuePriorities :: "real list"

record VkDeviceCreateInfo =
  pQueueCreateInfos :: "VkDeviceQueueCreateInfo list"
  pEnabledFeatures :: "string list"
  ppEnabledExtensionNames_dev :: "string list"
  ppEnabledLayerNames_dev :: "string list"

text \<open>
  A queue handle, as \<^verbatim>\<open>vkGetDeviceQueue(device, family, index, &queue)\<close> returns it:
  the queue of the logical device with this family index and this queue index.
\<close>

datatype VkQueue = Queue uint32_t uint32_t

text \<open>
  The calls of the program that create, fetch or destroy a handle, with the arguments
  that matter and, for a creation, the driver's answer. Read-only queries are not
  recorded.
\<close>

datatype Call =
  glfwInit
  | glfwCreateWindow
  | vkCreateInstance VkInstanceCreateInfo VkResult
  | vkCreateDebugReportCallbackEXT VkResult
  | glfwCreateWindowSurface VkResult
  | vkCreateDevice PhysicalDevice VkDeviceCreateInfo VkResult
  | vkGetDeviceQueue uint32_t uint32_t
  | vkDestroyDevice
  | vkDestroyDebugReportCallbackEXT
  | vkDestroySurfaceKHR
  | vkDestroyInstance
  | glfwDestroyWindow
  | glfwTerminate

text \<open>
  What the driver and GLFW answer, beyond the physical devices:
  \<^item> \<open>availableLayers\<close>: the layer names of \<^verbatim>\<open>vkEnumerateInstanceLayerProperties\<close>;
  \<^item> \<open>availableExtensions\<close>: the names of
    \<^verbatim>\<open>vkEnumerateInstanceExtensionProperties\<close>;
  \<^item> \<open>glfwExtensions\<close>: the result of \<^verbatim>\<open>glfwGetRequiredInstanceExtensions\<close>;
  \<^item> \<open>found_vkCreateDebugReportCallbackEXT\<close>, \<open>found_vkDestroyDebugReportCallbackEXT\<close>:
    whether \<^verbatim>\<open>vkGetInstanceProcAddr\<close> returns a function for that name;
  \<^item> \<open>result_...\<close>: the \<^verbatim>\<open>VkResult\<close> of the creation call;
  \<^item> \<open>physicalDevices\<close>: the result of \<^verbatim>\<open>vkEnumeratePhysicalDevices\<close>.
\<close>

record Driver =
  availableLayers :: "string list"
  availableExtensions :: "string list"
  glfwExtensions :: "string list"
  result_vkCreateInstance :: VkResult
  found_vkCreateDebugReportCallbackEXT :: bool
  result_vkCreateDebugReportCallbackEXT :: VkResult
  found_vkDestroyDebugReportCallbackEXT :: bool
  result_glfwCreateWindowSurface :: VkResult
  physicalDevices :: "PhysicalDevice list"
  result_vkCreateDevice :: VkResult

text \<open>
  The members of \<^verbatim>\<open>HelloTriangleApplication\<close> that the bootstrap sequence writes,
  and the calls issued so far, oldest first. A member function is a function from
  the state to the exception it throws, if any, and the state it leaves.
\<close>

record App =
  calls :: "Call list"
  physicalDevice :: "PhysicalDevice option"
  graphicsQueue :: "VkQueue option"
  presentQueue :: "VkQueue option"

definition issue :: "Call \<Rightarrow> App \<Rightarrow> App" where
  "issue c a = a\<lparr>calls := calls a @ [c]\<rparr>"

section \<open>Capability Negotiator\<close>

definition requestedLayers :: "string list" where
  "requestedLayers = [''VK_LAYER_LUNARG_standard_validation'']"

text \<open>\<^verbatim>\<open>#define DEBUG\<close> is the first line of the file.\<close>

definition enableValidationLayers :: bool where
  "enableValidationLayers = True"

text \<open>
  Modelled from the spec: the macro \<^verbatim>\<open>VK_EXT_DEBUG_REPORT_EXTENSION_NAME\<close> comes from
  the Vulkan header, which is not part of the repository; it names the
  "debug-message extension", \<^verbatim>\<open>"VK_EXT_debug_report"\<close> in the header. The general
  theorems below hold for any name.
\<close>

definition VK_EXT_DEBUG_REPORT_EXTENSION_NAME :: string where
  "VK_EXT_DEBUG_REPORT_EXTENSION_NAME = ''VK_EXT_debug_report''"

text \<open>
  The inner loops of lines 151-157 and 204-210: \<^verbatim>\<open>strcmp(...) == 0\<close> against each
  available name, \<^verbatim>\<open>break\<close> at the first match.
\<close>

fun nameFound :: "string \<Rightarrow> string list \<Rightarrow> bool" where
  "nameFound requested [] = False"
| "nameFound requested (available # rest) =
     (if requested = available then True else nameFound requested rest)"

text \<open>\<^verbatim>\<open>checkValidationLayerSupport\<close> (lines 129-163).\<close>

fun checkValidationLayerSupport_loop :: "string list \<Rightarrow> string list \<Rightarrow> bool" where
  "checkValidationLayerSupport_loop [] available = True"
| "checkValidationLayerSupport_loop (requestedLayer # rest) available =
     (if \<not> nameFound requestedLayer available then False
      else checkValidationLayerSupport_loop rest available)"

definition checkValidationLayerSupport :: "Driver \<Rightarrow> bool" where
  "checkValidationLayerSupport drv =
     checkValidationLayerSupport_loop requestedLayers (availableLayers drv)"

text \<open>\<^verbatim>\<open>getRequestedExtensions\<close> (lines 166-220).\<close>

fun getRequestedExtensions_loop :: "string list \<Rightarrow> string list \<Rightarrow> error option" where
  "getRequestedExtensions_loop [] available = None"
| "getRequestedExtensions_loop (requestedExtension # rest) available =
     (if \<not> nameFound requestedExtension available then Some UnsupportedExtension
      else getRequestedExtensions_loop rest available)"

definition requestedExtensions :: "Driver \<Rightarrow> string list" where
  "requestedExtensions drv =
     glfwExtensions drv @
     (if enableValidationLayers then [VK_EXT_DEBUG_REPORT_EXTENSION_NAME] else [])"

definition getRequestedExtensions :: "Driver \<Rightarrow> error + string list" where
  "getRequestedExtensions drv =
     (case getRequestedExtensions_loop (requestedExtensions drv) (availableExtensions drv) of
        Some e \<Rightarrow> Inl e
      | None \<Rightarrow> Inr (requestedExtensions drv))"

text \<open>\<^verbatim>\<open>createInstance\<close> (lines 239-285).\<close>

definition createInstance :: "Driver \<Rightarrow> App \<Rightarrow> error option \<times> App" where
  "createInstance drv a =
     (if enableValidationLayers \<and> \<not> checkValidationLayerSupport drv
      then (Some UnsupportedLayer, a)
      else (let layers = (if enableValidationLayers then requestedLayers else [])
            in case getRequestedExtensions drv of
                 Inl e \<Rightarrow> (Some e, a)
               | Inr extensions \<Rightarrow>
                   (let createInfo =
                          \<lparr>ppEnabledLayerNames = layers, ppEnabledExtensionNames = extensions\<rparr>;
                        a' = issue (vkCreateInstance createInfo (result_vkCreateInstance drv)) a
                    in if result_vkCreateInstance drv \<noteq> VK_SUCCESS
                       then (Some ContextCreationFailed, a')
                       else (None, a'))))"

section \<open>Debug sink and surface\<close>

text \<open>
  \<^verbatim>\<open>setupDebugCallback\<close> (lines 288-305) with \<^verbatim>\<open>CreateDebugReportCallbackEXT\<close>
  (lines 35-47): the driver's function is called only when
  \<^verbatim>\<open>vkGetInstanceProcAddr\<close> finds it.
\<close>

definition setupDebugCallback :: "Driver \<Rightarrow> App \<Rightarrow> error option \<times> App" where
  "setupDebugCallback drv a =
     (if \<not> enableValidationLayers then (None, a)
      else if found_vkCreateDebugReportCallbackEXT drv
      then (let a' = issue (vkCreateDebugReportCallbackEXT
                              (result_vkCreateDebugReportCallbackEXT drv)) a
            in if result_vkCreateDebugReportCallbackEXT drv \<noteq> VK_SUCCESS
               then (Some DebugSinkSetupFailed, a')
               else (None, a'))
      else (Some DebugSinkSetupFailed, a))"

text \<open>\<^verbatim>\<open>createSurface\<close> (lines 538-540).\<close>

definition createSurface :: "Driver \<Rightarrow> App \<Rightarrow> error option \<times> App" where
  "createSurface drv a =
     (let a' = issue (glfwCreateWindowSurface (result_glfwCreateWindowSurface drv)) a
      in if result_glfwCreateWindowSurface drv \<noteq> VK_SUCCESS
         then (Some SurfaceCreationFailed, a')
         else (None, a'))"

section \<open>Logical Device Factory\<close>

text \<open>
  \<^verbatim>\<open>createLogicalDevice\<close> (lines 485-535), for the device the member
  \<^verbatim>\<open>physicalDevice\<close> holds. \<^verbatim>\<open>std::set<int> uniqueQueueFamilies\<close> is iterated in
  ascending order; each \<^verbatim>\<open>int\<close> is converted to the \<^verbatim>\<open>uint32_t\<close> field
  \<^verbatim>\<open>queueFamilyIndex\<close>.
\<close>

definition createLogicalDevice :: "Driver \<Rightarrow> PhysicalDevice \<Rightarrow> App \<Rightarrow> error option \<times> App" where
  "createLogicalDevice drv dev a =
     (let indices = findQueueFamilies dev;
          uniqueQueueFamilies = {graphicsFamily indices, presentFamily indices};
          queuePriority = (1 :: real);
          queueCreateInfos =
            map (\<lambda>queueFamily.
                   \<lparr>queueFamilyIndex = word_of_int queueFamily, queueCount_req = 1,
                    pQueuePriorities = [queuePriority]\<rparr>)
                (sorted_list_of_set uniqueQueueFamilies);
          createInfo =
            \<lparr>pQueueCreateInfos = queueCreateInfos,
             pEnabledFeatures = [],
             ppEnabledExtensionNames_dev = requestedDeviceExtensions,
             ppEnabledLayerNames_dev = (if enableValidationLayers then requestedLayers else [])\<rparr>;
          a1 = issue (vkCreateDevice dev createInfo (result_vkCreateDevice drv)) a
      in if result_vkCreateDevice drv \<noteq> VK_SUCCESS
         then (Some LogicalDeviceCreationFailed, a1)
         else (let a2 = issue (vkGetDeviceQueue (word_of_int (graphicsFamily indices)) 0) a1;
                   a3 = a2\<lparr>graphicsQueue := Some (Queue (word_of_int (graphicsFamily indices)) 0)\<rparr>;
                   a4 = issue (vkGetDeviceQueue (word_of_int (presentFamily indices)) 0) a3
               in (None, a4\<lparr>presentQueue := Some (Queue (word_of_int (presentFamily indices)) 0)\<rparr>)))"

section \<open>Bootstrap sequence and teardown\<close>

text \<open>\<^verbatim>\<open>initWindow\<close> (lines 593-609).\<close>

definition initWindow :: "App \<Rightarrow> App" where
  "initWindow a = issue glfwCreateWindow (issue glfwInit a)"

text \<open>
  \<^verbatim>\<open>initVulkan\<close> (lines 612-625): the five steps in order; the first exception
  ends the sequence.
\<close>

definition initVulkan :: "Driver \<Rightarrow> App \<Rightarrow> error option \<times> App" where
  "initVulkan drv a =
     (case createInstance drv a of
        (Some e, a1) \<Rightarrow> (Some e, a1)
      | (None, a1) \<Rightarrow>
     (case setupDebugCallback drv a1 of
        (Some e, a2) \<Rightarrow> (Some e, a2)
      | (None, a2) \<Rightarrow>
     (case createSurface drv a2 of
        (Some e, a3) \<Rightarrow> (Some e, a3)
      | (None, a3) \<Rightarrow>
     (case pickPhysicalDevice (physicalDevices drv) of
        Inl e \<Rightarrow> (Some e, a3)
      | Inr dev \<Rightarrow> createLogicalDevice drv dev (a3\<lparr>physicalDevice := Some dev\<rparr>)))))"

text \<open>
  \<^verbatim>\<open>cleanup\<close> (lines 639-647) with \<^verbatim>\<open>DestroyDebugReportCallbackEXT\<close> (lines 50-60),
  which calls the driver's function only when \<^verbatim>\<open>vkGetInstanceProcAddr\<close> finds it.
\<close>

definition cleanup :: "Driver \<Rightarrow> App \<Rightarrow> App" where
  "cleanup drv a =
     (let a1 = issue vkDestroyDevice a;
          a2 = (if found_vkDestroyDebugReportCallbackEXT drv
                then issue vkDestroyDebugReportCallbackEXT a1 else a1);
          a3 = issue vkDestroySurfaceKHR a2;
          a4 = issue vkDestroyInstance a3;
          a5 = issue glfwDestroyWindow a4
      in issue glfwTerminate a5)"

definition newApp :: App where
  "newApp = \<lparr>calls = [], physicalDevice = None, graphicsQueue = None, presentQueue = None\<rparr>"

section \<open>Notions used to state the properties\<close>

subsection \<open>Queue families\<close>

text \<open>
  The two predicates the resolver tests on the family with index \<open>i\<close>: graphics
  submission (the family has a queue and its bitmask has the graphics bit) and
  presentation to the surface (the family has a queue and the driver answers true).
\<close>

definition graphicsOK :: "PhysicalDevice \<Rightarrow> nat \<Rightarrow> bool" where
  "graphicsOK dev i =
     (i < length (queueFamilies dev) \<and> 0 < queueCount (queueFamilies dev ! i) \<and>
      queueFlags (queueFamilies dev ! i) AND VK_QUEUE_GRAPHICS_BIT \<noteq> 0)"

definition presentOK :: "PhysicalDevice \<Rightarrow> nat \<Rightarrow> bool" where
  "presentOK dev i =
     (i < length (queueFamilies dev) \<and> 0 < queueCount (queueFamilies dev ! i) \<and>
      vkGetPhysicalDeviceSurfaceSupportKHR dev i \<noteq> 0)"

text \<open>
  \<open>bothSeen dev k\<close>: among the families \<open>0..k\<close> one satisfies the graphics predicate
  and one (the same or another) the presentation predicate. \<open>scanned dev\<close> is the
  number of families up to and including the first index where both have been seen,
  and the number of all families when there is no such index.
\<close>

definition bothSeen :: "PhysicalDevice \<Rightarrow> nat \<Rightarrow> bool" where
  "bothSeen dev k = (list_ex (graphicsOK dev) [0..<Suc k] \<and> list_ex (presentOK dev) [0..<Suc k])"

definition scanned :: "PhysicalDevice \<Rightarrow> nat" where
  "scanned dev =
     (case find (bothSeen dev) [0..<length (queueFamilies dev)] of
        None \<Rightarrow> length (queueFamilies dev)
      | Some k \<Rightarrow> Suc k)"

text \<open>The greatest index below \<open>m\<close> that satisfies \<open>P\<close>, and \<open>-1\<close> when there is none.\<close>

definition lastIndexBelow :: "(nat \<Rightarrow> bool) \<Rightarrow> nat \<Rightarrow> int" where
  "lastIndexBelow P m = (case filter P (rev [0..<m]) of [] \<Rightarrow> - 1 | i # _ \<Rightarrow> int i)"

text \<open>The smallest index below \<open>m\<close> that satisfies \<open>P\<close>, and \<open>-1\<close> when there is none.\<close>

definition firstIndexBelow :: "(nat \<Rightarrow> bool) \<Rightarrow> nat \<Rightarrow> int" where
  "firstIndexBelow P m = (case find P [0..<m] of None \<Rightarrow> - 1 | Some i \<Rightarrow> int i)"

text \<open>
  The loop of the resolver without its \<^verbatim>\<open>break\<close>, and the number of iterations the
  loop with its \<^verbatim>\<open>break\<close> executes; both are used in the proofs only.
\<close>

fun findQueueFamilies_run ::
  "PhysicalDevice \<Rightarrow> VkQueueFamilyProperties list \<Rightarrow> int \<Rightarrow> QueueFamilyIndices \<Rightarrow> QueueFamilyIndices" where
  "findQueueFamilies_run dev [] i indices = indices"
| "findQueueFamilies_run dev (queueFamily # rest) i indices =
     findQueueFamilies_run dev rest (i + 1) (findQueueFamilies_body dev i queueFamily indices)"

fun findQueueFamilies_iterations ::
  "PhysicalDevice \<Rightarrow> VkQueueFamilyProperties list \<Rightarrow> int \<Rightarrow> QueueFamilyIndices \<Rightarrow> nat" where
  "findQueueFamilies_iterations dev [] i indices = 0"
| "findQueueFamilies_iterations dev (queueFamily # rest) i indices =
     (let indices' = findQueueFamilies_body dev i queueFamily indices
      in if isComplete indices' then 1
         else Suc (findQueueFamilies_iterations dev rest (i + 1) indices'))"

subsection \<open>Scores\<close>

text \<open>The four hard requirements of the scorer, in the words of the specification.\<close>

definition hardRequirements :: "PhysicalDevice \<Rightarrow> bool" where
  "hardRequirements dev =
     (geometryShader dev \<noteq> 0 \<and> isComplete (findQueueFamilies dev) \<and>
      set requestedDeviceExtensions \<subseteq> set (deviceExtensions dev) \<and>
      formats (querySwapChainSupport dev) \<noteq> [] \<and>
      presentModes (querySwapChainSupport dev) \<noteq> [])"

definition discreteBonus :: "PhysicalDevice \<Rightarrow> int" where
  "discreteBonus dev = (if deviceType dev = VK_PHYSICAL_DEVICE_TYPE_DISCRETE_GPU then 1000 else 0)"

text \<open>The score as the signed integer the C++ \<^verbatim>\<open>int\<close> holds.\<close>

definition score :: "PhysicalDevice \<Rightarrow> int" where
  "score dev = sint (ratePhysicalDevice dev)"

subsection \<open>Resources\<close>

datatype Resource = Context | DebugSink | Surface | LogicalDevice

fun acquires :: "Call \<Rightarrow> Resource option" where
  "acquires (vkCreateInstance createInfo VK_SUCCESS) = Some Context"
| "acquires (vkCreateDebugReportCallbackEXT VK_SUCCESS) = Some DebugSink"
| "acquires (glfwCreateWindowSurface VK_SUCCESS) = Some Surface"
| "acquires (vkCreateDevice dev createInfo VK_SUCCESS) = Some LogicalDevice"
| "acquires c = None"

fun releases :: "Call \<Rightarrow> Resource option" where
  "releases vkDestroyDevice = Some LogicalDevice"
| "releases vkDestroyDebugReportCallbackEXT = Some DebugSink"
| "releases vkDestroySurfaceKHR = Some Surface"
| "releases vkDestroyInstance = Some Context"
| "releases c = None"

text \<open>The resources a sequence of calls acquires, and those it releases, in order.\<close>

definition acquired :: "Call list \<Rightarrow> Resource list" where
  "acquired cs = List.map_filter acquires cs"

definition released :: "Call list \<Rightarrow> Resource list" where
  "released cs = List.map_filter releases cs"

subsection \<open>Concrete devices and drivers\<close>

text \<open>
  Device A and device B of the scenario of the specification: both meet every hard
  requirement; A is discrete with limit 8192, B is integrated with limit 16384.
\<close>

definition deviceA :: PhysicalDevice where
  "deviceA =
     \<lparr>deviceID = 1, deviceType = VK_PHYSICAL_DEVICE_TYPE_DISCRETE_GPU,
      maxImageDimension2D = 8192, geometryShader = 1,
      queueFamilies = [\<lparr>queueFlags = 1, queueCount = 1\<rparr>], surfaceSupport = [1],
      deviceExtensions = [''VK_KHR_swapchain''], surfaceFormats = [(44, 0)],
      surfacePresentModes = [2]\<rparr>"

definition deviceB :: PhysicalDevice where
  "deviceB = deviceA\<lparr>deviceID := 2, deviceType := VK_PHYSICAL_DEVICE_TYPE_INTEGRATED_GPU,
                     maxImageDimension2D := 16384\<rparr>"

text \<open>A second discrete device with the limit of A, hence with the score of A.\<close>

definition deviceA2 :: PhysicalDevice where
  "deviceA2 = deviceA\<lparr>deviceID := 3\<rparr>"

text \<open>Two devices without geometry shader.\<close>

definition deviceNoGS :: PhysicalDevice where
  "deviceNoGS = deviceA\<lparr>deviceID := 4, geometryShader := 0\<rparr>"

definition deviceNoGS2 :: PhysicalDevice where
  "deviceNoGS2 = deviceA\<lparr>deviceID := 5, geometryShader := 0\<rparr>"

text \<open>
  An integrated device that meets every hard requirement and reports the limit
  \<open>2 ^ 31\<close>, a value of the \<^verbatim>\<open>uint32_t\<close> field that the \<^verbatim>\<open>int\<close> score cannot hold.
\<close>

definition deviceHuge :: PhysicalDevice where
  "deviceHuge = deviceA\<lparr>deviceID := 6, deviceType := VK_PHYSICAL_DEVICE_TYPE_INTEGRATED_GPU,
                        maxImageDimension2D := 2147483648\<rparr>"

text \<open>
  A device with two queue families: both have a queue and the graphics bit, only the
  second presents to the surface. And the same device with a third family that
  qualifies for both roles.
\<close>

definition deviceTwoFamilies :: PhysicalDevice where
  "deviceTwoFamilies =
     deviceA\<lparr>deviceID := 7,
             queueFamilies := [\<lparr>queueFlags = 1, queueCount = 1\<rparr>, \<lparr>queueFlags = 1, queueCount = 1\<rparr>],
             surfaceSupport := [0, 1]\<rparr>"

definition deviceThreeFamilies :: PhysicalDevice where
  "deviceThreeFamilies =
     deviceA\<lparr>deviceID := 8,
             queueFamilies := [\<lparr>queueFlags = 1, queueCount = 1\<rparr>, \<lparr>queueFlags = 1, queueCount = 1\<rparr>,
                               \<lparr>queueFlags = 1, queueCount = 1\<rparr>],
             surfaceSupport := [0, 1, 1]\<rparr>"

text \<open>
  A device whose only family has the graphics bit and presentation support but no
  queue.
\<close>

definition deviceNoQueue :: PhysicalDevice where
  "deviceNoQueue = deviceA\<lparr>deviceID := 9, queueFamilies := [\<lparr>queueFlags = 1, queueCount = 0\<rparr>]\<rparr>"

text \<open>A device with a graphics family (index 0) and a separate presentation family (index 1).\<close>

definition deviceSplit :: PhysicalDevice where
  "deviceSplit =
     deviceA\<lparr>deviceID := 10,
             queueFamilies := [\<lparr>queueFlags = 1, queueCount = 1\<rparr>, \<lparr>queueFlags = 4, queueCount = 1\<rparr>],
             surfaceSupport := [0, 1]\<rparr>"

text \<open>
  A driver on which the whole bootstrap sequence succeeds, and drivers that lack the
  requested layer, the debug-report extension, or both.
\<close>

definition driverOK :: Driver where
  "driverOK =
     \<lparr>availableLayers = [''VK_LAYER_LUNARG_standard_validation''],
      availableExtensions = [''VK_KHR_surface'', ''VK_KHR_xcb_surface'', ''VK_EXT_debug_report''],
      glfwExtensions = [''VK_KHR_surface'', ''VK_KHR_xcb_surface''],
      result_vkCreateInstance = VK_SUCCESS,
      found_vkCreateDebugReportCallbackEXT = True,
      result_vkCreateDebugReportCallbackEXT = VK_SUCCESS,
      found_vkDestroyDebugReportCallbackEXT = True,
      result_glfwCreateWindowSurface = VK_SUCCESS,
      physicalDevices = [deviceA, deviceB],
      result_vkCreateDevice = VK_SUCCESS\<rparr>"

definition driverNoLayer :: Driver where
  "driverNoLayer = driverOK\<lparr>availableLayers := []\<rparr>"

definition driverNoDebugReport :: Driver where
  "driverNoDebugReport =
     driverOK\<lparr>availableExtensions := [''VK_KHR_surface'', ''VK_KHR_xcb_surface'']\<rparr>"

text \<open>A driver that lacks both the requested layer and the debug-report extension.\<close>

definition driverNoLayerNoDebugReport :: Driver where
  "driverNoLayerNoDebugReport = driverNoDebugReport\<lparr>availableLayers := []\<rparr>"

text \<open>A device that reports one extension, which is not the swapchain extension.\<close>

definition deviceNoSwapchain :: PhysicalDevice where
  "deviceNoSwapchain = deviceA\<lparr>deviceID := 11, deviceExtensions := [''VK_KHR_maintenance1'']\<rparr>"

subsection \<open>The request of the Logical Device Factory\<close>

text \<open>
  The \<^verbatim>\<open>VkDeviceCreateInfo\<close> that \<^verbatim>\<open>createLogicalDevice\<close> builds for a device, as
  a function of the device; used in the proofs only.
\<close>

definition deviceCreateInfo :: "PhysicalDevice \<Rightarrow> VkDeviceCreateInfo" where
  "deviceCreateInfo dev =
     \<lparr>pQueueCreateInfos =
        map (\<lambda>queueFamily.
               \<lparr>queueFamilyIndex = word_of_int queueFamily, queueCount_req = 1,
                pQueuePriorities = [1]\<rparr>)
            (sorted_list_of_set
               {graphicsFamily (findQueueFamilies dev), presentFamily (findQueueFamilies dev)}),
      pEnabledFeatures = [],
      ppEnabledExtensionNames_dev = requestedDeviceExtensions,
      ppEnabledLayerNames_dev = requestedLayers\<rparr>"

section \<open>Properties\<close>

subsection \<open>Queue Family Resolver\<close>

lemma body_graphicsFamily:
  "graphicsFamily (findQueueFamilies_body dev i q indices) =
     (if 0 < queueCount q \<and> queueFlags q AND VK_QUEUE_GRAPHICS_BIT \<noteq> 0 then i
      else graphicsFamily indices)"
  by (simp add: findQueueFamilies_body_def Let_def)

lemma body_presentFamily:
  "presentFamily (findQueueFamilies_body dev i q indices) =
     (if 0 < queueCount q \<and> vkGetPhysicalDeviceSurfaceSupportKHR dev (nat i) \<noteq> 0 then i
      else presentFamily indices)"
  by (simp add: findQueueFamilies_body_def Let_def)

lemma loop_eq_run:
  "findQueueFamilies_loop dev qs i indices =
     findQueueFamilies_run dev (take (findQueueFamilies_iterations dev qs i indices) qs) i indices"
  by (induction qs arbitrary: i indices) (simp_all add: Let_def)

lemma iterations_le: "findQueueFamilies_iterations dev qs i indices \<le> length qs"
  by (induction qs arbitrary: i indices) (simp_all add: Let_def)

lemma iterations_pos: "qs \<noteq> [] \<Longrightarrow> 0 < findQueueFamilies_iterations dev qs i indices"
  by (cases qs) (simp_all add: Let_def)

lemma run_snoc:
  "findQueueFamilies_run dev (qs @ [q]) i indices =
     findQueueFamilies_body dev (i + int (length qs)) q (findQueueFamilies_run dev qs i indices)"
  by (induction qs arbitrary: i indices) (simp_all add: algebra_simps)

lemma run_take_Suc:
  assumes "m < length qs"
  shows "findQueueFamilies_run dev (take (Suc m) qs) i indices =
     findQueueFamilies_body dev (i + int m) (qs ! m) (findQueueFamilies_run dev (take m qs) i indices)"
proof -
  have "take (Suc m) qs = take m qs @ [qs ! m]"
    using assms by (rule take_Suc_conv_app_nth)
  then show ?thesis
    using assms by (simp add: run_snoc)
qed

lemma not_complete_before_stop:
  "0 < j \<Longrightarrow> j < findQueueFamilies_iterations dev qs i indices \<Longrightarrow>
   \<not> isComplete (findQueueFamilies_run dev (take j qs) i indices)"
proof (induction qs arbitrary: i indices j)
  case Nil
  then show ?case by simp
next
  case (Cons q rest)
  let ?b = "findQueueFamilies_body dev i q indices"
  from Cons.prems have nc: "\<not> isComplete ?b"
    by (auto simp: Let_def split: if_splits)
  with Cons.prems have lt: "j - 1 < findQueueFamilies_iterations dev rest (i + 1) ?b"
    by (auto simp: Let_def)
  obtain j' where j: "j = Suc j'"
    using Cons.prems(1) by (cases j) auto
  show ?case
  proof (cases j')
    case 0
    with j nc show ?thesis by simp
  next
    case (Suc k)
    with j lt Cons.IH [of j' "i + 1" ?b] show ?thesis by simp
  qed
qed

lemma complete_at_stop:
  "findQueueFamilies_iterations dev qs i indices < length qs \<Longrightarrow>
   isComplete (findQueueFamilies_run dev (take (findQueueFamilies_iterations dev qs i indices) qs) i indices)"
  by (induction qs arbitrary: i indices) (auto simp: Let_def)

lemma lastIndexBelow_0: "lastIndexBelow P 0 = - 1"
  by (simp add: lastIndexBelow_def)

lemma lastIndexBelow_Suc: "lastIndexBelow P (Suc m) = (if P m then int m else lastIndexBelow P m)"
  by (simp add: lastIndexBelow_def)

lemma lastIndexBelow_nonneg: "(0 \<le> lastIndexBelow P m) = list_ex P [0..<m]"
  by (induction m) (auto simp: lastIndexBelow_0 lastIndexBelow_Suc)

lemma lastIndexBelow_cases:
  "lastIndexBelow P m = - 1 \<and> (\<forall>i<m. \<not> P i) \<or>
   (\<exists>i<m. lastIndexBelow P m = int i \<and> P i \<and> (\<forall>j. i < j \<and> j < m \<longrightarrow> \<not> P j))"
proof (induction m)
  case 0
  then show ?case by (simp add: lastIndexBelow_0)
next
  case (Suc m)
  show ?case
  proof (cases "P m")
    case True
    then show ?thesis by (auto simp: lastIndexBelow_Suc)
  next
    case False
    from Suc show ?thesis
    proof
      assume "lastIndexBelow P m = - 1 \<and> (\<forall>i<m. \<not> P i)"
      with False show ?thesis by (auto simp: lastIndexBelow_Suc less_Suc_eq)
    next
      assume "\<exists>i<m. lastIndexBelow P m = int i \<and> P i \<and> (\<forall>j. i < j \<and> j < m \<longrightarrow> \<not> P j)"
      then obtain i where "i < m" "lastIndexBelow P m = int i" "P i" "\<forall>j. i < j \<and> j < m \<longrightarrow> \<not> P j"
        by blast
      with False have "i < Suc m \<and> lastIndexBelow P (Suc m) = int i \<and> P i \<and> (\<forall>j. i < j \<and> j < Suc m \<longrightarrow> \<not> P j)"
        by (auto simp: lastIndexBelow_Suc less_Suc_eq)
      then show ?thesis by blast
    qed
  qed
qed

lemma run_families:
  "m \<le> length (queueFamilies dev) \<Longrightarrow>
   graphicsFamily (findQueueFamilies_run dev (take m (queueFamilies dev)) 0
      \<lparr>graphicsFamily = - 1, presentFamily = - 1\<rparr>) = lastIndexBelow (graphicsOK dev) m \<and>
   presentFamily (findQueueFamilies_run dev (take m (queueFamilies dev)) 0
      \<lparr>graphicsFamily = - 1, presentFamily = - 1\<rparr>) = lastIndexBelow (presentOK dev) m"
proof (induction m)
  case 0
  then show ?case by (simp add: lastIndexBelow_0)
next
  case (Suc m)
  then have m: "m < length (queueFamilies dev)" by simp
  with Suc show ?case
    by (simp add: run_take_Suc body_graphicsFamily body_presentFamily lastIndexBelow_Suc
        graphicsOK_def presentOK_def)
qed

lemma run_complete:
  "k < length (queueFamilies dev) \<Longrightarrow>
   isComplete (findQueueFamilies_run dev (take (Suc k) (queueFamilies dev)) 0
      \<lparr>graphicsFamily = - 1, presentFamily = - 1\<rparr>) = bothSeen dev k"
  using run_families [of "Suc k" dev]
  by (simp add: isComplete_def bothSeen_def lastIndexBelow_nonneg del: upt_Suc)

lemma scanned_iterations:
  "scanned dev = findQueueFamilies_iterations dev (queueFamilies dev) 0
      \<lparr>graphicsFamily = - 1, presentFamily = - 1\<rparr>"
proof -
  let ?qs = "queueFamilies dev"
  let ?i0 = "\<lparr>graphicsFamily = - 1, presentFamily = - 1\<rparr>"
  let ?n = "findQueueFamilies_iterations dev ?qs 0 ?i0"
  have le: "?n \<le> length ?qs" by (rule iterations_le)
  have stop: "\<exists>k. ?n = Suc k \<and> k < length ?qs \<and> bothSeen dev k" if "?n < length ?qs"
  proof -
    from that have "?qs \<noteq> []" by auto
    then have "0 < ?n" by (rule iterations_pos)
    then obtain k where k: "?n = Suc k" by (cases ?n) auto
    with that have kl: "k < length ?qs" by simp
    from complete_at_stop [OF that] k run_complete [OF kl] kl show ?thesis by simp
  qed
  show ?thesis
  proof (cases "find (bothSeen dev) [0..<length ?qs]")
    case None
    then have no: "\<forall>k<length ?qs. \<not> bothSeen dev k"
      by (auto simp: find_None_iff)
    have "?n = length ?qs"
    proof (rule ccontr)
      assume "?n \<noteq> length ?qs"
      with le have "?n < length ?qs" by simp
      from stop [OF this] no show False by blast
    qed
    with None show ?thesis by (simp add: scanned_def)
  next
    case (Some k)
    then have k: "k < length ?qs" "bothSeen dev k" "\<forall>j<k. \<not> bothSeen dev j"
      by (auto simp: find_Some_iff)
    have "?n = Suc k"
    proof (rule ccontr)
      assume ne: "?n \<noteq> Suc k"
      show False
      proof (cases "?n < Suc k")
        case True
        with k(1) have "?n < length ?qs" by simp
        from stop [OF this] obtain k' where "?n = Suc k'" "bothSeen dev k'" by blast
        with True k(3) show False by auto
      next
        case False
        with ne have "Suc k < ?n" by simp
        from not_complete_before_stop [OF _ this] have "\<not> isComplete (findQueueFamilies_run dev (take (Suc k) ?qs) 0 ?i0)"
          by simp
        with run_complete [OF k(1)] k(2) show False by simp
      qed
    qed
    with Some show ?thesis by (simp add: scanned_def)
  qed
qed

lemma findQueueFamilies_run_scanned:
  "findQueueFamilies dev = findQueueFamilies_run dev (take (scanned dev) (queueFamilies dev)) 0
      \<lparr>graphicsFamily = - 1, presentFamily = - 1\<rparr>"
  by (simp add: findQueueFamilies_def loop_eq_run scanned_iterations)

lemma scanned_le: "scanned dev \<le> length (queueFamilies dev)"
  by (simp add: scanned_iterations iterations_le)

lemma findQueueFamilies_last:
  "graphicsFamily (findQueueFamilies dev) = lastIndexBelow (graphicsOK dev) (scanned dev) \<and>
   presentFamily (findQueueFamilies dev) = lastIndexBelow (presentOK dev) (scanned dev)"
  using run_families [OF scanned_le] by (simp add: findQueueFamilies_run_scanned)

lemma body_cong:
  "vkGetPhysicalDeviceSurfaceSupportKHR dev' (nat i) = vkGetPhysicalDeviceSurfaceSupportKHR dev (nat i) \<Longrightarrow>
   findQueueFamilies_body dev' i q indices = findQueueFamilies_body dev i q indices"
  by (simp add: findQueueFamilies_body_def)

lemma loop_prefix:
  "\<not> isComplete indices \<Longrightarrow> isComplete (findQueueFamilies_loop dev qs i indices) \<Longrightarrow> 0 \<le> i \<Longrightarrow>
   take (findQueueFamilies_iterations dev qs i indices) qs' =
     take (findQueueFamilies_iterations dev qs i indices) qs \<Longrightarrow>
   (\<forall>j<findQueueFamilies_iterations dev qs i indices.
      vkGetPhysicalDeviceSurfaceSupportKHR dev' (nat i + j) =
      vkGetPhysicalDeviceSurfaceSupportKHR dev (nat i + j)) \<Longrightarrow>
   findQueueFamilies_loop dev' qs' i indices = findQueueFamilies_loop dev qs i indices"
proof (induction qs arbitrary: qs' i indices)
  case Nil
  then show ?case by simp
next
  case (Cons q rest)
  let ?b = "findQueueFamilies_body dev i q indices"
  let ?n = "findQueueFamilies_iterations dev (q # rest) i indices"
  have pos: "0 < ?n" by (rule iterations_pos) simp
  from Cons.prems(5) pos
  have "vkGetPhysicalDeviceSurfaceSupportKHR dev' (nat i + 0) =
        vkGetPhysicalDeviceSurfaceSupportKHR dev (nat i + 0)"
    by blast
  then have b: "findQueueFamilies_body dev' i q indices = ?b"
    using body_cong [of dev' i dev q indices] by simp
  obtain m where m: "?n = Suc m"
    using pos gr0_conv_Suc by blast
  have "qs' \<noteq> []"
  proof
    assume "qs' = []"
    with Cons.prems(4) m show False
      by (simp del: findQueueFamilies_iterations.simps)
  qed
  then obtain q' rest' where q': "qs' = q' # rest'"
    by (cases qs') auto
  with Cons.prems(4) m have "q' = q"
    by (simp del: findQueueFamilies_iterations.simps)
  with q' have qs': "qs' = q # rest'"
    by simp
  show ?case
  proof (cases "isComplete ?b")
    case True
    with b qs' show ?thesis by (simp add: Let_def)
  next
    case False
    then have n: "?n = Suc (findQueueFamilies_iterations dev rest (i + 1) ?b)"
      by (simp add: Let_def)
    from False Cons.prems(2) have c: "isComplete (findQueueFamilies_loop dev rest (i + 1) ?b)"
      by (simp add: Let_def)
    from Cons.prems(4) n qs' have t: "take (findQueueFamilies_iterations dev rest (i + 1) ?b) rest' =
        take (findQueueFamilies_iterations dev rest (i + 1) ?b) rest"
      by simp
    have s: "\<forall>j<findQueueFamilies_iterations dev rest (i + 1) ?b.
      vkGetPhysicalDeviceSurfaceSupportKHR dev' (nat (i + 1) + j) =
      vkGetPhysicalDeviceSurfaceSupportKHR dev (nat (i + 1) + j)"
    proof (intro allI impI)
      fix j assume "j < findQueueFamilies_iterations dev rest (i + 1) ?b"
      with n have "Suc j < ?n" by simp
      with Cons.prems(5) have "vkGetPhysicalDeviceSurfaceSupportKHR dev' (nat i + Suc j) =
        vkGetPhysicalDeviceSurfaceSupportKHR dev (nat i + Suc j)" by blast
      moreover from Cons.prems(3) have "nat (i + 1) + j = nat i + Suc j" by simp
      ultimately show "vkGetPhysicalDeviceSurfaceSupportKHR dev' (nat (i + 1) + j) =
        vkGetPhysicalDeviceSurfaceSupportKHR dev (nat (i + 1) + j)" by simp
    qed
    from Cons.prems(3) have "0 \<le> i + 1" by simp
    from Cons.IH [OF False c this t s] False b qs' show ?thesis
      by (simp add: Let_def)
  qed
qed

lemma findQueueFamilies_prefix:
  assumes "isComplete (findQueueFamilies dev)"
    and "take (scanned dev) (queueFamilies dev') = take (scanned dev) (queueFamilies dev)"
    and "\<forall>j < scanned dev. vkGetPhysicalDeviceSurfaceSupportKHR dev' j =
           vkGetPhysicalDeviceSurfaceSupportKHR dev j"
  shows "findQueueFamilies dev' = findQueueFamilies dev"
proof -
  have "\<not> isComplete \<lparr>graphicsFamily = - 1, presentFamily = - 1\<rparr>"
    by (simp add: isComplete_def)
  from loop_prefix [OF this, of dev "queueFamilies dev" 0 "queueFamilies dev'" dev'] assms
  show ?thesis
    by (simp add: findQueueFamilies_def scanned_iterations)
qed

text \<open>
  Claim C2, as amended. The resolver stops as soon as both fields are populated: it
  scans exactly the first \<open>scanned dev\<close> families, those up to and including the first
  index at which a graphics family and a presentation family have both been seen (all
  families when there is no such index). Its \<open>graphicsFamily\<close> is the last scanned
  index that satisfies the graphics predicate and its \<open>presentFamily\<close> the last scanned
  index that satisfies the presentation predicate (\<open>-1\<close> when there is none); one family
  may populate both. When the result is complete, no later family is considered: any
  device that reports the same first \<open>scanned dev\<close> families and the same answers for
  them resolves to the same indices.
\<close>

theorem findQueueFamilies_scan:
  "graphicsFamily (findQueueFamilies dev) = lastIndexBelow (graphicsOK dev) (scanned dev) \<and>
   presentFamily (findQueueFamilies dev) = lastIndexBelow (presentOK dev) (scanned dev) \<and>
   (isComplete (findQueueFamilies dev) \<longrightarrow>
     (\<forall>dev'. take (scanned dev) (queueFamilies dev') = take (scanned dev) (queueFamilies dev) \<and>
        (\<forall>j < scanned dev. vkGetPhysicalDeviceSurfaceSupportKHR dev' j =
           vkGetPhysicalDeviceSurfaceSupportKHR dev j) \<longrightarrow>
        findQueueFamilies dev' = findQueueFamilies dev))"
  using findQueueFamilies_last [of dev] findQueueFamilies_prefix [of dev] by blast

lemma findQueueFamilies_deviceTwoFamilies:
  "findQueueFamilies deviceTwoFamilies = \<lparr>graphicsFamily = 1, presentFamily = 1\<rparr>"
  by (simp add: findQueueFamilies_def deviceTwoFamilies_def deviceA_def findQueueFamilies_body_def
      vkGetPhysicalDeviceSurfaceSupportKHR_def VK_QUEUE_GRAPHICS_BIT_def isComplete_def Let_def)

lemma scanned_deviceTwoFamilies: "scanned deviceTwoFamilies = 2"
  by (simp add: scanned_def bothSeen_def graphicsOK_def presentOK_def deviceTwoFamilies_def
      deviceA_def vkGetPhysicalDeviceSurfaceSupportKHR_def VK_QUEUE_GRAPHICS_BIT_def upt_conv_Cons)

text \<open>
  An instance of the previous theorem: the device with two families is resolved on its
  second family, and a third family that qualifies for both roles changes nothing.
\<close>

theorem findQueueFamilies_scan_witness:
  "scanned deviceTwoFamilies = 2 \<and>
   graphicsFamily (findQueueFamilies deviceTwoFamilies) = 1 \<and>
   presentFamily (findQueueFamilies deviceTwoFamilies) = 1 \<and>
   isComplete (findQueueFamilies deviceTwoFamilies) \<and>
   length (queueFamilies deviceThreeFamilies) = 3 \<and>
   findQueueFamilies deviceThreeFamilies = findQueueFamilies deviceTwoFamilies"
proof -
  have c: "isComplete (findQueueFamilies deviceTwoFamilies)"
    by (simp add: findQueueFamilies_deviceTwoFamilies isComplete_def)
  have q2: "queueFamilies deviceTwoFamilies =
      [\<lparr>queueFlags = 1, queueCount = 1\<rparr>, \<lparr>queueFlags = 1, queueCount = 1\<rparr>]"
    and s2: "surfaceSupport deviceTwoFamilies = [0, 1]"
    by (simp_all add: deviceTwoFamilies_def)
  have q3: "queueFamilies deviceThreeFamilies =
      [\<lparr>queueFlags = 1, queueCount = 1\<rparr>, \<lparr>queueFlags = 1, queueCount = 1\<rparr>,
       \<lparr>queueFlags = 1, queueCount = 1\<rparr>]"
    and s3: "surfaceSupport deviceThreeFamilies = [0, 1, 1]"
    by (simp_all add: deviceThreeFamilies_def)
  have t: "take (scanned deviceTwoFamilies) (queueFamilies deviceThreeFamilies) =
           take (scanned deviceTwoFamilies) (queueFamilies deviceTwoFamilies)"
    by (simp add: scanned_deviceTwoFamilies q2 q3)
  have s: "\<forall>j < scanned deviceTwoFamilies.
      vkGetPhysicalDeviceSurfaceSupportKHR deviceThreeFamilies j =
      vkGetPhysicalDeviceSurfaceSupportKHR deviceTwoFamilies j"
    by (auto simp: scanned_deviceTwoFamilies vkGetPhysicalDeviceSurfaceSupportKHR_def
        s2 s3 less_Suc_eq numeral_2_eq_2)
  from findQueueFamilies_scan [of deviceTwoFamilies] c t s
  have "findQueueFamilies deviceThreeFamilies = findQueueFamilies deviceTwoFamilies"
    by blast
  with c show ?thesis
    by (simp add: scanned_deviceTwoFamilies findQueueFamilies_deviceTwoFamilies q3)
qed

text \<open>
  Claim C2 as stated fails: on the device with two families, family 0 is the first that
  satisfies the graphics predicate, and the resolver returns family 1.
\<close>

theorem findQueueFamilies_first_counterexample:
  "graphicsOK deviceTwoFamilies 0 \<and>
   firstIndexBelow (graphicsOK deviceTwoFamilies) (length (queueFamilies deviceTwoFamilies)) = 0 \<and>
   graphicsFamily (findQueueFamilies deviceTwoFamilies) = 1"
proof -
  have "graphicsOK deviceTwoFamilies 0"
    by (simp add: graphicsOK_def deviceTwoFamilies_def deviceA_def VK_QUEUE_GRAPHICS_BIT_def)
  moreover from this
  have "firstIndexBelow (graphicsOK deviceTwoFamilies) (length (queueFamilies deviceTwoFamilies)) = 0"
    by (simp add: firstIndexBelow_def deviceTwoFamilies_def upt_conv_Cons)
  ultimately show ?thesis
    by (simp add: findQueueFamilies_deviceTwoFamilies)
qed

text \<open>
  Claim C10: a queue family whose reported queue count is zero is never assigned to
  \<open>graphicsFamily\<close> nor to \<open>presentFamily\<close>, whatever its bitmask and whatever the driver
  answers about presentation.
\<close>

theorem findQueueFamilies_no_queue:
  "i < length (queueFamilies dev) \<Longrightarrow> queueCount (queueFamilies dev ! i) = 0 \<Longrightarrow>
   graphicsFamily (findQueueFamilies dev) \<noteq> int i \<and> presentFamily (findQueueFamilies dev) \<noteq> int i"
proof -
  assume i: "i < length (queueFamilies dev)" and z: "queueCount (queueFamilies dev ! i) = 0"
  from z have ng: "\<not> graphicsOK dev i" and np: "\<not> presentOK dev i"
    by (simp_all add: graphicsOK_def presentOK_def)
  have "graphicsFamily (findQueueFamilies dev) \<noteq> int i"
    using lastIndexBelow_cases [of "graphicsOK dev" "scanned dev"] ng
    by (auto simp: findQueueFamilies_last)
  moreover have "presentFamily (findQueueFamilies dev) \<noteq> int i"
    using lastIndexBelow_cases [of "presentOK dev" "scanned dev"] np
    by (auto simp: findQueueFamilies_last)
  ultimately show ?thesis by simp
qed

text \<open>
  An instance: the only family of this device has the graphics bit and presentation
  support but no queue, and neither field holds its index.
\<close>

theorem findQueueFamilies_no_queue_witness:
  "0 < length (queueFamilies deviceNoQueue) \<and>
   queueCount (queueFamilies deviceNoQueue ! 0) = 0 \<and>
   queueFlags (queueFamilies deviceNoQueue ! 0) AND VK_QUEUE_GRAPHICS_BIT \<noteq> 0 \<and>
   vkGetPhysicalDeviceSurfaceSupportKHR deviceNoQueue 0 \<noteq> 0 \<and>
   graphicsFamily (findQueueFamilies deviceNoQueue) \<noteq> 0 \<and>
   presentFamily (findQueueFamilies deviceNoQueue) \<noteq> 0"
proof -
  have l: "0 < length (queueFamilies deviceNoQueue)"
    by (simp add: deviceNoQueue_def)
  have z: "queueCount (queueFamilies deviceNoQueue ! 0) = 0"
    by (simp add: deviceNoQueue_def)
  from findQueueFamilies_no_queue [OF l z] l z show ?thesis
    by (simp add: deviceNoQueue_def deviceA_def VK_QUEUE_GRAPHICS_BIT_def
        vkGetPhysicalDeviceSurfaceSupportKHR_def)
qed

subsection \<open>Device Extension Validator\<close>

lemma extension_loop:
  "checkPhysicalDeviceExtensionSupport_loop available S = S - set available"
  by (induction available arbitrary: S) auto

lemma checkPhysicalDeviceExtensionSupport_subset:
  "checkPhysicalDeviceExtensionSupport dev =
     (set requestedDeviceExtensions \<subseteq> set (deviceExtensions dev))"
  by (auto simp: checkPhysicalDeviceExtensionSupport_def extension_loop)

text \<open>
  Claim C8: the validator returns true if and only if the set difference of the
  required extension names minus the names the device reports is empty.
\<close>

theorem checkPhysicalDeviceExtensionSupport_difference:
  "checkPhysicalDeviceExtensionSupport dev =
     (set requestedDeviceExtensions - set (deviceExtensions dev) = {})"
  by (simp add: checkPhysicalDeviceExtensionSupport_def extension_loop)

text \<open>
  An instance: device A reports the swapchain extension and passes; a device that
  reports only another extension fails.
\<close>

theorem checkPhysicalDeviceExtensionSupport_difference_witness:
  "checkPhysicalDeviceExtensionSupport deviceA \<and>
   \<not> checkPhysicalDeviceExtensionSupport deviceNoSwapchain"
  using checkPhysicalDeviceExtensionSupport_difference [of deviceA]
    checkPhysicalDeviceExtensionSupport_difference [of deviceNoSwapchain]
  by (simp add: requestedDeviceExtensions_def VK_KHR_SWAPCHAIN_EXTENSION_NAME_def
      deviceNoSwapchain_def deviceA_def)

subsection \<open>Candidate Scorer\<close>

lemma ratePhysicalDevice_hard:
  "hardRequirements dev \<Longrightarrow>
   ratePhysicalDevice dev =
     (if deviceType dev = VK_PHYSICAL_DEVICE_TYPE_DISCRETE_GPU then 1000 else 0) +
     maxImageDimension2D dev"
  by (simp add: ratePhysicalDevice_def hardRequirements_def Let_def
      checkPhysicalDeviceExtensionSupport_subset)

lemma ratePhysicalDevice_not_hard:
  "\<not> hardRequirements dev \<Longrightarrow> ratePhysicalDevice dev = 0"
  by (auto simp: ratePhysicalDevice_def hardRequirements_def Let_def
      checkPhysicalDeviceExtensionSupport_subset)

lemma sint_small: "uint w < 2 ^ 31 \<Longrightarrow> sint w = uint w" for w :: "32 word"
proof -
  assume a: "uint w < 2 ^ 31"
  have "- (2 ^ 31) \<le> (0 :: int)"
    by simp
  also have "0 \<le> uint w"
    by simp
  finally have "- (2 ^ 31) \<le> uint w" .
  from this a have "signed_take_bit 31 (uint w) = uint w"
    by (rule signed_take_bit_int_eq_self)
  then show ?thesis
    by (simp add: sint_uint)
qed

lemma score_hard:
  assumes "hardRequirements dev"
    and "discreteBonus dev + uint (maxImageDimension2D dev) < 2 ^ 31"
  shows "score dev = discreteBonus dev + uint (maxImageDimension2D dev)"
proof -
  let ?b = "(if deviceType dev = VK_PHYSICAL_DEVICE_TYPE_DISCRETE_GPU then 1000 else 0) :: 32 word"
  have b: "uint ?b = discreteBonus dev"
    by (simp add: discreteBonus_def)
  from assms(2) b have "uint ?b + uint (maxImageDimension2D dev) < 2 ^ LENGTH(32)"
    by simp
  then have "uint (?b + maxImageDimension2D dev) = uint ?b + uint (maxImageDimension2D dev)"
    by (simp only: uint_add_lem)
  with assms b show ?thesis
    using sint_small [of "?b + maxImageDimension2D dev"]
    by (simp add: score_def ratePhysicalDevice_hard)
qed

lemma score_nonneg:
  assumes "uint (maxImageDimension2D dev) < 2 ^ 31 - 1000"
  shows "0 \<le> score dev"
proof (cases "hardRequirements dev")
  case True
  have b: "0 \<le> discreteBonus dev" "discreteBonus dev \<le> 1000"
    by (simp_all add: discreteBonus_def)
  with assms have "discreteBonus dev + uint (maxImageDimension2D dev) < 2 ^ 31"
    by simp
  with True have "score dev = discreteBonus dev + uint (maxImageDimension2D dev)"
    by (rule score_hard)
  with b show ?thesis by simp
next
  case False
  then show ?thesis
    by (simp add: score_def ratePhysicalDevice_not_hard)
qed

lemma findQueueFamilies_one_family:
  "queueFamilies dev = [\<lparr>queueFlags = 1, queueCount = 1\<rparr>] \<Longrightarrow> surfaceSupport dev = [1] \<Longrightarrow>
   findQueueFamilies dev = \<lparr>graphicsFamily = 0, presentFamily = 0\<rparr>"
  by (simp add: findQueueFamilies_def findQueueFamilies_body_def
      vkGetPhysicalDeviceSurfaceSupportKHR_def VK_QUEUE_GRAPHICS_BIT_def isComplete_def Let_def)

lemma hardRequirements_deviceA: "hardRequirements deviceA"
  by (simp add: hardRequirements_def findQueueFamilies_one_family isComplete_def
      querySwapChainSupport_def requestedDeviceExtensions_def VK_KHR_SWAPCHAIN_EXTENSION_NAME_def
      deviceA_def)

lemma hardRequirements_deviceB: "hardRequirements deviceB"
  by (simp add: hardRequirements_def findQueueFamilies_one_family isComplete_def
      querySwapChainSupport_def requestedDeviceExtensions_def VK_KHR_SWAPCHAIN_EXTENSION_NAME_def
      deviceB_def deviceA_def)

lemma hardRequirements_deviceA2: "hardRequirements deviceA2"
  by (simp add: hardRequirements_def findQueueFamilies_one_family isComplete_def
      querySwapChainSupport_def requestedDeviceExtensions_def VK_KHR_SWAPCHAIN_EXTENSION_NAME_def
      deviceA2_def deviceA_def)

lemma hardRequirements_deviceHuge: "hardRequirements deviceHuge"
  by (simp add: hardRequirements_def findQueueFamilies_one_family isComplete_def
      querySwapChainSupport_def requestedDeviceExtensions_def VK_KHR_SWAPCHAIN_EXTENSION_NAME_def
      deviceHuge_def deviceA_def)

lemma score_deviceA: "score deviceA = 9192"
  using score_hard [OF hardRequirements_deviceA] by (simp add: discreteBonus_def deviceA_def)

lemma score_deviceA2: "score deviceA2 = 9192"
  using score_hard [OF hardRequirements_deviceA2]
  by (simp add: discreteBonus_def deviceA2_def deviceA_def)

lemma score_deviceB: "score deviceB = 16384"
  using score_hard [OF hardRequirements_deviceB]
  by (simp add: discreteBonus_def deviceB_def deviceA_def)

lemma deviceHuge_fields:
  "deviceType deviceHuge = VK_PHYSICAL_DEVICE_TYPE_INTEGRATED_GPU"
  "maxImageDimension2D deviceHuge = 2147483648"
  by (simp_all add: deviceHuge_def)

lemma ratePhysicalDevice_deviceHuge: "ratePhysicalDevice deviceHuge = 2147483648"
  by (simp add: ratePhysicalDevice_hard [OF hardRequirements_deviceHuge] deviceHuge_fields)

lemma score_deviceHuge: "score deviceHuge = - 2147483648"
  by (simp add: score_def ratePhysicalDevice_deviceHuge)

lemma score_deviceNoGS: "score deviceNoGS = 0" "score deviceNoGS2 = 0"
  by (simp_all add: score_def ratePhysicalDevice_def deviceNoGS_def deviceNoGS2_def Let_def)

text \<open>
  Claim C3: the score is 0 whenever a hard requirement fails (the geometry-shader
  flag is false, or the resolved queue family indices are not complete, or a required
  device extension is missing, or the probed list of surface formats or of
  presentation modes is empty), whatever the device type and the limits are.
\<close>

theorem ratePhysicalDevice_zero:
  "geometryShader dev = 0 \<or> \<not> isComplete (findQueueFamilies dev) \<or>
   \<not> set requestedDeviceExtensions \<subseteq> set (deviceExtensions dev) \<or>
   formats (querySwapChainSupport dev) = [] \<or> presentModes (querySwapChainSupport dev) = [] \<Longrightarrow>
   ratePhysicalDevice dev = 0"
  by (rule ratePhysicalDevice_not_hard) (auto simp: hardRequirements_def)

text \<open>
  An instance: a discrete device with limit 8192 and no geometry shader scores 0.
\<close>

theorem ratePhysicalDevice_zero_witness:
  "geometryShader deviceNoGS = 0 \<and>
   deviceType deviceNoGS = VK_PHYSICAL_DEVICE_TYPE_DISCRETE_GPU \<and>
   maxImageDimension2D deviceNoGS = 8192 \<and>
   ratePhysicalDevice deviceNoGS = 0"
proof -
  have g: "geometryShader deviceNoGS = 0"
    by (simp add: deviceNoGS_def)
  then have "ratePhysicalDevice deviceNoGS = 0"
    by (intro ratePhysicalDevice_zero) simp
  with g show ?thesis
    by (simp add: deviceNoGS_def deviceA_def)
qed

lemma pick_two:
  assumes "score a < score b" "0 < score b"
  shows "pickPhysicalDevice [a, b] = Inr b" "pickPhysicalDevice [b, a] = Inr b"
  using assms by (simp_all add: pickPhysicalDevice_def multimap_insert_def Let_def score_def)

text \<open>
  Claim C4, as amended. For a device that meets the four hard requirements the score
  is the 32-bit sum of the bonus (1000 for a discrete GPU, else 0) and the limit
  \<open>maxImageDimension2D\<close>; whenever that sum is below \<open>2 ^ 31\<close> the score is exactly the
  bonus plus the limit. In particular a discrete device with limit 8192 scores 9192, an
  integrated device with limit 16384 scores 16384, and the selector picks the
  integrated device, in whichever order the two are enumerated.
\<close>

theorem ratePhysicalDevice_score:
  "(hardRequirements dev \<longrightarrow>
      ratePhysicalDevice dev =
        (if deviceType dev = VK_PHYSICAL_DEVICE_TYPE_DISCRETE_GPU then 1000 else 0) +
        maxImageDimension2D dev \<and>
      (discreteBonus dev + uint (maxImageDimension2D dev) < 2 ^ 31 \<longrightarrow>
         score dev = discreteBonus dev + uint (maxImageDimension2D dev))) \<and>
   (hardRequirements A \<and> deviceType A = VK_PHYSICAL_DEVICE_TYPE_DISCRETE_GPU \<and>
    maxImageDimension2D A = 8192 \<and>
    hardRequirements B \<and> deviceType B = VK_PHYSICAL_DEVICE_TYPE_INTEGRATED_GPU \<and>
    maxImageDimension2D B = 16384 \<longrightarrow>
      score A = 9192 \<and> score B = 16384 \<and>
      pickPhysicalDevice [A, B] = Inr B \<and> pickPhysicalDevice [B, A] = Inr B)"
proof (intro conjI impI)
  assume "hardRequirements dev"
  then show "ratePhysicalDevice dev =
        (if deviceType dev = VK_PHYSICAL_DEVICE_TYPE_DISCRETE_GPU then 1000 else 0) +
        maxImageDimension2D dev"
    by (rule ratePhysicalDevice_hard)
next
  assume "hardRequirements dev" "discreteBonus dev + uint (maxImageDimension2D dev) < 2 ^ 31"
  then show "score dev = discreteBonus dev + uint (maxImageDimension2D dev)"
    by (rule score_hard)
next
  assume h: "hardRequirements A \<and> deviceType A = VK_PHYSICAL_DEVICE_TYPE_DISCRETE_GPU \<and>
    maxImageDimension2D A = 8192 \<and>
    hardRequirements B \<and> deviceType B = VK_PHYSICAL_DEVICE_TYPE_INTEGRATED_GPU \<and>
    maxImageDimension2D B = 16384"
  then have a: "score A = 9192"
    using score_hard [of A] by (simp add: discreteBonus_def)
  from h have b: "score B = 16384"
    using score_hard [of B] by (simp add: discreteBonus_def)
  from a show "score A = 9192" .
  from b show "score B = 16384" .
  from a b show "pickPhysicalDevice [A, B] = Inr B"
    by (intro pick_two) simp_all
  from a b show "pickPhysicalDevice [B, A] = Inr B"
    by (intro pick_two) simp_all
qed

text \<open>
  An instance: device A and device B of the scenario.
\<close>

theorem ratePhysicalDevice_score_witness:
  "hardRequirements deviceA \<and> hardRequirements deviceB \<and>
   deviceType deviceA = VK_PHYSICAL_DEVICE_TYPE_DISCRETE_GPU \<and> maxImageDimension2D deviceA = 8192 \<and>
   deviceType deviceB = VK_PHYSICAL_DEVICE_TYPE_INTEGRATED_GPU \<and> maxImageDimension2D deviceB = 16384 \<and>
   ratePhysicalDevice deviceA = 9192 \<and> score deviceA = 9192 \<and> score deviceB = 16384 \<and>
   pickPhysicalDevice [deviceA, deviceB] = Inr deviceB \<and>
   pickPhysicalDevice [deviceB, deviceA] = Inr deviceB"
proof -
  have f: "deviceType deviceA = VK_PHYSICAL_DEVICE_TYPE_DISCRETE_GPU" "maxImageDimension2D deviceA = 8192"
    "deviceType deviceB = VK_PHYSICAL_DEVICE_TYPE_INTEGRATED_GPU" "maxImageDimension2D deviceB = 16384"
    by (simp_all add: deviceA_def deviceB_def)
  from ratePhysicalDevice_score [of deviceA deviceA deviceB] hardRequirements_deviceA
    hardRequirements_deviceB f
  show ?thesis by simp
qed

text \<open>
  Claim C4 as stated fails: the integrated device that meets every hard requirement
  and reports the limit \<open>2 ^ 31\<close> is scored \<open>- 2 ^ 31\<close>, not \<open>0 + 2 ^ 31\<close>: the sum does
  not fit the \<^verbatim>\<open>int\<close> that holds the score.
\<close>

theorem ratePhysicalDevice_score_counterexample:
  "hardRequirements deviceHuge \<and>
   score deviceHuge = - 2147483648 \<and>
   discreteBonus deviceHuge + uint (maxImageDimension2D deviceHuge) = 2147483648"
  by (simp add: hardRequirements_deviceHuge score_deviceHuge discreteBonus_def deviceHuge_fields)

subsection \<open>Device Selector\<close>

lemma pick_loop_snoc:
  "pickPhysicalDevice_loop (devs @ [d]) m =
     multimap_insert (ratePhysicalDevice d, d) (pickPhysicalDevice_loop devs m)"
  by (induction devs arbitrary: m) simp_all

lemma dropWhile_above:
  "sorted (map (\<lambda>e. sint (fst e)) m) \<Longrightarrow>
   \<forall>e\<in>set (dropWhile (\<lambda>e. sint (fst e) \<le> k) m). k < sint (fst e)"
proof (induction m)
  case Nil
  then show ?case by simp
next
  case (Cons x m)
  then show ?case by (cases "sint (fst x) \<le> k") (auto simp: not_le)
qed

lemma sorted_le_last: "sorted xs \<Longrightarrow> x \<in> set xs \<Longrightarrow> x \<le> last xs" for xs :: "int list"
  by (induction xs) auto

lemma multimap_insert_sorted:
  assumes "sorted (map (\<lambda>e. sint (fst e)) m)"
  shows "sorted (map (\<lambda>e. sint (fst e)) (multimap_insert kv m))"
proof -
  let ?P = "\<lambda>e. sint (fst e) \<le> sint (fst kv)"
  have m: "takeWhile ?P m @ dropWhile ?P m = m" by simp
  from assms have "sorted (map (\<lambda>e. sint (fst e)) (takeWhile ?P m @ dropWhile ?P m))"
    by simp
  then have st: "sorted (map (\<lambda>e. sint (fst e)) (takeWhile ?P m))"
    and sd: "sorted (map (\<lambda>e. sint (fst e)) (dropWhile ?P m))"
    unfolding map_append sorted_append by blast+
  have lo: "\<forall>e\<in>set (takeWhile ?P m). sint (fst e) \<le> sint (fst kv)"
    by (auto dest: set_takeWhileD)
  have hi: "\<forall>e\<in>set (dropWhile ?P m). sint (fst kv) < sint (fst e)"
    using assms by (rule dropWhile_above)
  from st sd lo hi show ?thesis
    unfolding multimap_insert_def by (fastforce simp: sorted_append)
qed

lemma multimap_insert_last:
  assumes "sorted (map (\<lambda>e. sint (fst e)) m)"
  shows "last (multimap_insert kv m) =
     (if m = [] \<or> sint (fst (last m)) \<le> sint (fst kv) then kv else last m)"
proof (cases "m = []")
  case True
  then show ?thesis by (simp add: multimap_insert_def)
next
  case False
  let ?P = "\<lambda>e. sint (fst e) \<le> sint (fst kv)"
  show ?thesis
  proof (cases "sint (fst (last m)) \<le> sint (fst kv)")
    case True
    have "\<forall>e\<in>set m. ?P e"
    proof
      fix e assume "e \<in> set m"
      then have "sint (fst e) \<in> set (map (\<lambda>e. sint (fst e)) m)" by simp
      with assms have "sint (fst e) \<le> last (map (\<lambda>e. sint (fst e)) m)"
        by (rule sorted_le_last)
      with False True show "?P e" by (simp add: last_map)
    qed
    then have "dropWhile ?P m = []" "takeWhile ?P m = m"
      by simp_all
    with True show ?thesis by (simp add: multimap_insert_def)
  next
    case hi: False
    from False have "last m \<in> set m" by simp
    with hi have ne: "dropWhile ?P m \<noteq> []"
      by auto
    have "last m = last (takeWhile ?P m @ dropWhile ?P m)" by simp
    also from ne have "\<dots> = last (dropWhile ?P m)" by (rule last_appendR)
    finally have "last (dropWhile ?P m) = last m" by simp
    with ne hi False show ?thesis by (auto simp: multimap_insert_def)
  qed
qed

lemma multimap_insert_not_Nil: "multimap_insert kv m \<noteq> []"
  by (simp add: multimap_insert_def)

lemma pick_loop_last:
  "devs \<noteq> [] \<Longrightarrow>
   pickPhysicalDevice_loop devs [] \<noteq> [] \<and>
   sorted (map (\<lambda>e. sint (fst e)) (pickPhysicalDevice_loop devs [])) \<and>
   (\<exists>k<length devs.
      last (pickPhysicalDevice_loop devs []) = (ratePhysicalDevice (devs ! k), devs ! k) \<and>
      (\<forall>j<length devs. score (devs ! j) \<le> score (devs ! k)) \<and>
      (\<forall>j<length devs. k < j \<longrightarrow> score (devs ! j) < score (devs ! k)))"
proof (induction devs rule: rev_induct)
  case Nil
  then show ?case by simp
next
  case (snoc d devs)
  let ?R = "pickPhysicalDevice_loop devs []"
  let ?R' = "pickPhysicalDevice_loop (devs @ [d]) []"
  have R': "?R' = multimap_insert (ratePhysicalDevice d, d) ?R"
    by (rule pick_loop_snoc)
  show ?case
  proof (cases "devs = []")
    case True
    then show ?thesis by (simp add: multimap_insert_def)
  next
    case False
    with snoc.IH obtain k where
      ne: "?R \<noteq> []" and so: "sorted (map (\<lambda>e. sint (fst e)) ?R)" and
      k: "k < length devs" "last ?R = (ratePhysicalDevice (devs ! k), devs ! k)"
         "\<forall>j<length devs. score (devs ! j) \<le> score (devs ! k)"
         "\<forall>j<length devs. k < j \<longrightarrow> score (devs ! j) < score (devs ! k)"
      by blast
    have s1: "?R' \<noteq> []" and s2: "sorted (map (\<lambda>e. sint (fst e)) ?R')"
      using so by (simp_all add: R' multimap_insert_not_Nil multimap_insert_sorted)
    have la: "last ?R' = (if score (devs ! k) \<le> score d then (ratePhysicalDevice d, d) else last ?R)"
      using ne k(2) by (simp add: R' multimap_insert_last [OF so] score_def)
    show ?thesis
    proof (cases "score (devs ! k) \<le> score d")
      case True
      let ?k = "length devs"
      have "?k < length (devs @ [d])" by simp
      moreover from la True have "last ?R' = (ratePhysicalDevice ((devs @ [d]) ! ?k), (devs @ [d]) ! ?k)"
        by simp
      moreover have "\<forall>j<length (devs @ [d]). score ((devs @ [d]) ! j) \<le> score ((devs @ [d]) ! ?k)"
        using k(3) True by (auto simp: nth_append less_Suc_eq intro: order_trans)
      moreover have "\<forall>j<length (devs @ [d]). ?k < j \<longrightarrow> score ((devs @ [d]) ! j) < score ((devs @ [d]) ! ?k)"
        by simp
      ultimately show ?thesis using s1 s2 by blast
    next
      case hi: False
      have "k < length (devs @ [d])" using k(1) by simp
      moreover from la hi k have "last ?R' = (ratePhysicalDevice ((devs @ [d]) ! k), (devs @ [d]) ! k)"
        by (simp add: nth_append)
      moreover have "\<forall>j<length (devs @ [d]). score ((devs @ [d]) ! j) \<le> score ((devs @ [d]) ! k)"
        using k(1,3) hi by (auto simp: nth_append less_Suc_eq)
      moreover have "\<forall>j<length (devs @ [d]). k < j \<longrightarrow> score ((devs @ [d]) ! j) < score ((devs @ [d]) ! k)"
        using k(1,4) hi by (auto simp: nth_append less_Suc_eq)
      ultimately show ?thesis using s1 s2 by blast
    qed
  qed
qed

lemma pickPhysicalDevice_cases:
  assumes "devs \<noteq> []"
  shows "\<exists>k<length devs.
      (\<forall>j<length devs. score (devs ! j) \<le> score (devs ! k)) \<and>
      (\<forall>j<length devs. k < j \<longrightarrow> score (devs ! j) < score (devs ! k)) \<and>
      pickPhysicalDevice devs =
        (if 0 < score (devs ! k) then Inr (devs ! k) else Inl NoSuitableDevice)"
proof -
  from pick_loop_last [OF assms] obtain k where
    k: "k < length devs"
       "last (pickPhysicalDevice_loop devs []) = (ratePhysicalDevice (devs ! k), devs ! k)"
       "\<forall>j<length devs. score (devs ! j) \<le> score (devs ! k)"
       "\<forall>j<length devs. k < j \<longrightarrow> score (devs ! j) < score (devs ! k)"
    by blast
  from assms k(2) have "pickPhysicalDevice devs =
        (if 0 < score (devs ! k) then Inr (devs ! k) else Inl NoSuitableDevice)"
    by (simp add: pickPhysicalDevice_def Let_def score_def)
  with k show ?thesis by blast
qed

text \<open>
  Claim C1, as amended. For every enumeration in which some device scores above 0,
  the selector selects a device of maximum score, and every device enumerated after
  the selected one scores strictly less: with a unique maximum it selects that
  device, and among devices tied at the maximum it selects the one enumerated last.
\<close>

theorem pickPhysicalDevice_last_maximum:
  "\<exists>d\<in>set devs. 0 < score d \<Longrightarrow>
   \<exists>k<length devs.
     pickPhysicalDevice devs = Inr (devs ! k) \<and>
     (\<forall>j<length devs. score (devs ! j) \<le> score (devs ! k)) \<and>
     (\<forall>j<length devs. k < j \<longrightarrow> score (devs ! j) < score (devs ! k))"
proof -
  assume "\<exists>d\<in>set devs. 0 < score d"
  then obtain i where i: "i < length devs" "0 < score (devs ! i)"
    by (auto simp: in_set_conv_nth)
  then have "devs \<noteq> []" by auto
  from pickPhysicalDevice_cases [OF this] obtain k where
    k: "k < length devs" "\<forall>j<length devs. score (devs ! j) \<le> score (devs ! k)"
       "\<forall>j<length devs. k < j \<longrightarrow> score (devs ! j) < score (devs ! k)"
       "pickPhysicalDevice devs =
          (if 0 < score (devs ! k) then Inr (devs ! k) else Inl NoSuitableDevice)"
    by blast
  from i k(2) have "0 < score (devs ! k)" by fastforce
  with k show ?thesis by auto
qed

text \<open>
  An instance: two different devices with the same score 9192; the second is
  selected.
\<close>

theorem pickPhysicalDevice_last_maximum_witness:
  "(\<exists>d\<in>set [deviceA, deviceA2]. 0 < score d) \<and>
   score deviceA = score deviceA2 \<and> deviceA \<noteq> deviceA2 \<and>
   pickPhysicalDevice [deviceA, deviceA2] = Inr deviceA2"
proof -
  let ?devs = "[deviceA, deviceA2]"
  have p: "\<exists>d\<in>set ?devs. 0 < score d"
    by (simp add: score_deviceA)
  from pickPhysicalDevice_last_maximum [OF p] obtain k where
    k: "k < length ?devs" "pickPhysicalDevice ?devs = Inr (?devs ! k)"
       "\<forall>j<length ?devs. k < j \<longrightarrow> score (?devs ! j) < score (?devs ! k)"
    by blast
  have "k = 1"
  proof (rule ccontr)
    assume "k \<noteq> 1"
    with k(1) have "k = 0" by simp
    with k(3) [rule_format, of 1] have "score deviceA2 < score deviceA" by simp
    then show False by (simp add: score_deviceA score_deviceA2)
  qed
  with k(2) have "pickPhysicalDevice ?devs = Inr deviceA2" by simp
  moreover have "deviceA \<noteq> deviceA2"
    by (simp add: deviceA2_def deviceA_def)
  ultimately show ?thesis
    by (simp add: score_deviceA score_deviceA2)
qed

text \<open>
  Claim C1 as stated fails: two devices tied at the maximum score 0, and one device
  alone with score 0 (a unique maximum): the selector selects no device, it fails
  with \<open>NoSuitableDevice\<close>.
\<close>

theorem pickPhysicalDevice_tie_counterexample:
  "score deviceNoGS = 0 \<and> score deviceNoGS2 = 0 \<and>
   pickPhysicalDevice [deviceNoGS, deviceNoGS2] = Inl NoSuitableDevice \<and>
   pickPhysicalDevice [deviceNoGS] = Inl NoSuitableDevice"
  using score_deviceNoGS
  by (simp add: pickPhysicalDevice_def multimap_insert_def Let_def score_def)

lemma pickPhysicalDevice_outcome:
  "(pickPhysicalDevice devs = Inl NoDeviceDetected \<longleftrightarrow> devs = []) \<and>
   (pickPhysicalDevice devs = Inl NoSuitableDevice \<longleftrightarrow>
      devs \<noteq> [] \<and> (\<forall>d\<in>set devs. score d \<le> 0)) \<and>
   ((\<exists>d\<in>set devs. 0 < score d) \<longrightarrow> (\<exists>d\<in>set devs. pickPhysicalDevice devs = Inr d))"
proof (cases "devs = []")
  case True
  then show ?thesis by (simp add: pickPhysicalDevice_def)
next
  case False
  from pickPhysicalDevice_cases [OF this] obtain k where
    k: "k < length devs" "\<forall>j<length devs. score (devs ! j) \<le> score (devs ! k)"
       "pickPhysicalDevice devs =
          (if 0 < score (devs ! k) then Inr (devs ! k) else Inl NoSuitableDevice)"
    by blast
  have m: "(\<forall>d\<in>set devs. score d \<le> 0) \<longleftrightarrow> score (devs ! k) \<le> 0"
  proof
    assume "\<forall>d\<in>set devs. score d \<le> 0"
    with k(1) show "score (devs ! k) \<le> 0" by simp
  next
    assume z: "score (devs ! k) \<le> 0"
    show "\<forall>d\<in>set devs. score d \<le> 0"
    proof
      fix d assume "d \<in> set devs"
      then obtain j where "j < length devs" "d = devs ! j"
        by (auto simp: in_set_conv_nth)
      with k(2) z show "score d \<le> 0" by fastforce
    qed
  qed
  show ?thesis
  proof (cases "0 < score (devs ! k)")
    case True
    with k(1,3) have "pickPhysicalDevice devs = Inr (devs ! k)" "devs ! k \<in> set devs"
      by simp_all
    with True m False show ?thesis by auto
  next
    case z: False
    with k(3) have "pickPhysicalDevice devs = Inl NoSuitableDevice" by simp
    with z m False show ?thesis by auto
  qed
qed

text \<open>
  Claim C5, as amended. The selector fails with \<open>NoDeviceDetected\<close> exactly when no
  device is enumerated; it fails with \<open>NoSuitableDevice\<close> exactly when at least one
  device is enumerated and no device scores above 0; when some device scores above 0
  it succeeds and selects an enumerated device. When every limit
  \<open>maxImageDimension2D\<close> is below \<open>2 ^ 31 - 1000\<close> no score is negative, and "no device
  scores above 0" is "every device scores 0".
\<close>

theorem pickPhysicalDevice_errors:
  "(pickPhysicalDevice devs = Inl NoDeviceDetected \<longleftrightarrow> devs = []) \<and>
   (pickPhysicalDevice devs = Inl NoSuitableDevice \<longleftrightarrow>
      devs \<noteq> [] \<and> (\<forall>d\<in>set devs. score d \<le> 0)) \<and>
   ((\<exists>d\<in>set devs. 0 < score d) \<longrightarrow> (\<exists>d\<in>set devs. pickPhysicalDevice devs = Inr d)) \<and>
   ((\<forall>d\<in>set devs. uint (maxImageDimension2D d) < 2 ^ 31 - 1000) \<longrightarrow>
      (pickPhysicalDevice devs = Inl NoSuitableDevice \<longleftrightarrow>
         devs \<noteq> [] \<and> (\<forall>d\<in>set devs. score d = 0)))"
proof -
  have "(\<forall>d\<in>set devs. score d \<le> 0) \<longleftrightarrow> (\<forall>d\<in>set devs. score d = 0)"
    if "\<forall>d\<in>set devs. uint (maxImageDimension2D d) < 2 ^ 31 - 1000"
  proof -
    from that have "\<forall>d\<in>set devs. 0 \<le> score d"
      by (blast intro: score_nonneg)
    then show ?thesis by fastforce
  qed
  with pickPhysicalDevice_outcome [of devs] show ?thesis
    by blast
qed

text \<open>
  Instances: no device; two devices without geometry shader; a device without
  geometry shader followed by device A.
\<close>

theorem pickPhysicalDevice_errors_witness:
  "pickPhysicalDevice [] = Inl NoDeviceDetected \<and>
   pickPhysicalDevice [deviceNoGS, deviceNoGS2] = Inl NoSuitableDevice \<and>
   score deviceA = 9192 \<and>
   pickPhysicalDevice [deviceNoGS, deviceA] \<noteq> Inl NoSuitableDevice \<and>
   pickPhysicalDevice [deviceNoGS, deviceA] \<noteq> Inl NoDeviceDetected"
  using pickPhysicalDevice_errors [of "[]"] pickPhysicalDevice_errors [of "[deviceNoGS, deviceNoGS2]"]
    pickPhysicalDevice_errors [of "[deviceNoGS, deviceA]"]
  by (simp add: score_deviceA score_deviceNoGS)

text \<open>
  Claim C5 as stated fails: the only enumerated device does not score 0 (its score
  has wrapped to \<open>- 2 ^ 31\<close>), and the selector fails with \<open>NoSuitableDevice\<close>.
\<close>

theorem pickPhysicalDevice_negative_counterexample:
  "ratePhysicalDevice deviceHuge \<noteq> 0 \<and> score deviceHuge = - 2147483648 \<and>
   pickPhysicalDevice [deviceHuge] = Inl NoSuitableDevice"
  using score_deviceHuge
  by (simp add: ratePhysicalDevice_deviceHuge pickPhysicalDevice_def multimap_insert_def score_def)

subsection \<open>Capability Negotiator\<close>

lemma nameFound_iff: "nameFound requested available = (requested \<in> set available)"
  by (induction available) auto

lemma checkValidationLayerSupport_loop_iff:
  "checkValidationLayerSupport_loop requested available = (set requested \<subseteq> set available)"
  by (induction requested) (auto simp: nameFound_iff)

lemma getRequestedExtensions_loop_eq:
  "getRequestedExtensions_loop requested available =
     (if set requested \<subseteq> set available then None else Some UnsupportedExtension)"
  by (induction requested) (auto simp: nameFound_iff)

lemma createInstance_no_layer:
  "\<not> set requestedLayers \<subseteq> set (availableLayers drv) \<Longrightarrow>
   createInstance drv a = (Some UnsupportedLayer, a)"
  by (simp add: createInstance_def enableValidationLayers_def checkValidationLayerSupport_def
      checkValidationLayerSupport_loop_iff)

lemma getRequestedExtensions_missing:
  "\<not> set (requestedExtensions drv) \<subseteq> set (availableExtensions drv) \<Longrightarrow>
   getRequestedExtensions drv = Inl UnsupportedExtension"
  by (simp add: getRequestedExtensions_def getRequestedExtensions_loop_eq)

lemma createInstance_no_extension:
  "set requestedLayers \<subseteq> set (availableLayers drv) \<Longrightarrow>
   \<not> set (requestedExtensions drv) \<subseteq> set (availableExtensions drv) \<Longrightarrow>
   createInstance drv a = (Some UnsupportedExtension, a)"
  by (simp add: createInstance_def enableValidationLayers_def checkValidationLayerSupport_def
      checkValidationLayerSupport_loop_iff getRequestedExtensions_missing)

text \<open>
  Claim C7, as amended. When a requested validation layer is not among the available
  layers, \<^verbatim>\<open>checkValidationLayerSupport\<close> is false and \<^verbatim>\<open>createInstance\<close> fails
  with \<open>UnsupportedLayer\<close>. When a requested instance extension is not among the
  available extensions, \<^verbatim>\<open>getRequestedExtensions\<close> fails with
  \<open>UnsupportedExtension\<close>, and \<^verbatim>\<open>createInstance\<close> fails with
  \<open>UnsupportedExtension\<close> when every requested layer is available, and with
  \<open>UnsupportedLayer\<close> otherwise: the layer check comes first. In every one of these
  cases the state is unchanged: \<^verbatim>\<open>vkCreateInstance\<close> has not been called.
\<close>

theorem createInstance_negotiation:
  "((\<exists>l\<in>set requestedLayers. l \<notin> set (availableLayers drv)) \<longrightarrow>
      \<not> checkValidationLayerSupport drv \<and>
      createInstance drv a = (Some UnsupportedLayer, a)) \<and>
   ((\<exists>e\<in>set (requestedExtensions drv). e \<notin> set (availableExtensions drv)) \<longrightarrow>
      getRequestedExtensions drv = Inl UnsupportedExtension \<and>
      (createInstance drv a = (Some UnsupportedExtension, a) \<or>
       createInstance drv a = (Some UnsupportedLayer, a)) \<and>
      ((\<forall>l\<in>set requestedLayers. l \<in> set (availableLayers drv)) \<longrightarrow>
         createInstance drv a = (Some UnsupportedExtension, a)))"
proof (intro conjI impI)
  assume "\<exists>l\<in>set requestedLayers. l \<notin> set (availableLayers drv)"
  then have n: "\<not> set requestedLayers \<subseteq> set (availableLayers drv)" by blast
  then show "\<not> checkValidationLayerSupport drv"
    by (simp add: checkValidationLayerSupport_def checkValidationLayerSupport_loop_iff)
  from n show "createInstance drv a = (Some UnsupportedLayer, a)"
    by (rule createInstance_no_layer)
next
  assume "\<exists>e\<in>set (requestedExtensions drv). e \<notin> set (availableExtensions drv)"
  then have n: "\<not> set (requestedExtensions drv) \<subseteq> set (availableExtensions drv)" by blast
  then show "getRequestedExtensions drv = Inl UnsupportedExtension"
    by (rule getRequestedExtensions_missing)
  show "createInstance drv a = (Some UnsupportedExtension, a) \<or>
        createInstance drv a = (Some UnsupportedLayer, a)"
  proof (cases "set requestedLayers \<subseteq> set (availableLayers drv)")
    case True
    from createInstance_no_extension [OF True n] show ?thesis by simp
  next
    case False
    from createInstance_no_layer [OF False] show ?thesis by simp
  qed
  assume "\<forall>l\<in>set requestedLayers. l \<in> set (availableLayers drv)"
  then have "set requestedLayers \<subseteq> set (availableLayers drv)" by blast
  from createInstance_no_extension [OF this n]
  show "createInstance drv a = (Some UnsupportedExtension, a)" .
qed

text \<open>
  Instances: a driver without any layer, and a driver without the debug-report
  extension.
\<close>

theorem createInstance_negotiation_witness:
  "availableLayers driverNoLayer = [] \<and>
   createInstance driverNoLayer newApp = (Some UnsupportedLayer, newApp) \<and>
   ''VK_EXT_debug_report'' \<notin> set (availableExtensions driverNoDebugReport) \<and>
   createInstance driverNoDebugReport newApp = (Some UnsupportedExtension, newApp) \<and>
   calls newApp = []"
proof -
  have l: "availableLayers driverNoLayer = []"
    "availableLayers driverNoDebugReport = [''VK_LAYER_LUNARG_standard_validation'']"
    "availableExtensions driverNoDebugReport = [''VK_KHR_surface'', ''VK_KHR_xcb_surface'']"
    "glfwExtensions driverNoDebugReport = [''VK_KHR_surface'', ''VK_KHR_xcb_surface'']"
    by (simp_all add: driverNoLayer_def driverNoDebugReport_def driverOK_def)
  have r: "requestedLayers = [''VK_LAYER_LUNARG_standard_validation'']"
    "requestedExtensions driverNoDebugReport =
       [''VK_KHR_surface'', ''VK_KHR_xcb_surface'', ''VK_EXT_debug_report'']"
    by (simp_all add: requestedLayers_def requestedExtensions_def l enableValidationLayers_def
        VK_EXT_DEBUG_REPORT_EXTENSION_NAME_def)
  from createInstance_negotiation [of driverNoLayer newApp]
  have "createInstance driverNoLayer newApp = (Some UnsupportedLayer, newApp)"
    by (simp add: l r)
  moreover from createInstance_negotiation [of driverNoDebugReport newApp]
  have "createInstance driverNoDebugReport newApp = (Some UnsupportedExtension, newApp)"
    by (simp add: l r)
  ultimately show ?thesis
    by (simp add: l newApp_def)
qed

text \<open>
  Claim C7 as stated fails: the driver that lacks both the requested layer and the
  debug-report extension misses a requested instance extension, and
  \<^verbatim>\<open>createInstance\<close> fails with \<open>UnsupportedLayer\<close>, not with
  \<open>UnsupportedExtension\<close>.
\<close>

theorem createInstance_both_missing_counterexample:
  "''VK_EXT_debug_report'' \<in> set (requestedExtensions driverNoLayerNoDebugReport) \<and>
   ''VK_EXT_debug_report'' \<notin> set (availableExtensions driverNoLayerNoDebugReport) \<and>
   createInstance driverNoLayerNoDebugReport newApp = (Some UnsupportedLayer, newApp) \<and>
   fst (createInstance driverNoLayerNoDebugReport newApp) \<noteq> Some UnsupportedExtension"
proof -
  have f: "availableLayers driverNoLayerNoDebugReport = []"
    "availableExtensions driverNoLayerNoDebugReport = [''VK_KHR_surface'', ''VK_KHR_xcb_surface'']"
    "glfwExtensions driverNoLayerNoDebugReport = [''VK_KHR_surface'', ''VK_KHR_xcb_surface'']"
    by (simp_all add: driverNoLayerNoDebugReport_def driverNoDebugReport_def driverOK_def)
  have r: "requestedExtensions driverNoLayerNoDebugReport =
       [''VK_KHR_surface'', ''VK_KHR_xcb_surface'', ''VK_EXT_debug_report'']"
    by (simp add: requestedExtensions_def f enableValidationLayers_def
        VK_EXT_DEBUG_REPORT_EXTENSION_NAME_def)
  have "\<not> set requestedLayers \<subseteq> set (availableLayers driverNoLayerNoDebugReport)"
    by (simp add: requestedLayers_def f)
  then have "createInstance driverNoLayerNoDebugReport newApp = (Some UnsupportedLayer, newApp)"
    by (rule createInstance_no_layer)
  then show ?thesis
    by (simp add: f r)
qed

subsection \<open>Logical Device Factory\<close>

lemma sorted_list_of_pair:
  "sorted_list_of_set {g, p} = (if g = p then [g] else if g < p then [g, p] else [p, g])"
  for g p :: int
proof (cases "g = p")
  case True
  then show ?thesis by simp
next
  case False
  then have "sorted_list_of_set (insert g {p}) = insort g (sorted_list_of_set {p})"
    by (intro sorted_list_of_set_insert) simp_all
  with False show ?thesis by auto
qed

lemma findQueueFamilies_range:
  assumes "isComplete (findQueueFamilies dev)"
  shows "graphicsFamily (findQueueFamilies dev) < int (length (queueFamilies dev))"
    and "presentFamily (findQueueFamilies dev) < int (length (queueFamilies dev))"
proof -
  from assms have g: "0 \<le> graphicsFamily (findQueueFamilies dev)"
    and p: "0 \<le> presentFamily (findQueueFamilies dev)"
    by (simp_all add: isComplete_def)
  from g lastIndexBelow_cases [of "graphicsOK dev" "scanned dev"] scanned_le [of dev]
  show "graphicsFamily (findQueueFamilies dev) < int (length (queueFamilies dev))"
    by (auto simp: findQueueFamilies_last)
  from p lastIndexBelow_cases [of "presentOK dev" "scanned dev"] scanned_le [of dev]
  show "presentFamily (findQueueFamilies dev) < int (length (queueFamilies dev))"
    by (auto simp: findQueueFamilies_last)
qed

lemma createLogicalDevice_eq:
  "createLogicalDevice drv dev a =
     (if result_vkCreateDevice drv \<noteq> VK_SUCCESS
      then (Some LogicalDeviceCreationFailed,
            a\<lparr>calls := calls a @ [vkCreateDevice dev (deviceCreateInfo dev) (result_vkCreateDevice drv)]\<rparr>)
      else (None,
            a\<lparr>calls := calls a @
                 [vkCreateDevice dev (deviceCreateInfo dev) VK_SUCCESS,
                  vkGetDeviceQueue (word_of_int (graphicsFamily (findQueueFamilies dev))) 0,
                  vkGetDeviceQueue (word_of_int (presentFamily (findQueueFamilies dev))) 0],
               graphicsQueue := Some (Queue (word_of_int (graphicsFamily (findQueueFamilies dev))) 0),
               presentQueue := Some (Queue (word_of_int (presentFamily (findQueueFamilies dev))) 0)\<rparr>))"
  by (simp add: createLogicalDevice_def deviceCreateInfo_def issue_def Let_def
      enableValidationLayers_def)

text \<open>
  Claim C6. For a device whose queue family indices are resolved, the factory calls
  \<^verbatim>\<open>vkCreateDevice\<close> with one request per member of the set of the two indices, in
  ascending order, each for one queue at priority 1.0, and with no feature switched
  on; the request list has one entry when the two indices are equal and two entries
  otherwise; both indices are indices of families of the device; and when the driver
  accepts, the graphics queue and the presentation queue are queue 0 of the resolved
  graphics family and queue 0 of the resolved presentation family.
\<close>

theorem createLogicalDevice_request:
  assumes "isComplete (findQueueFamilies dev)"
  shows "\<exists>createInfo.
     calls (snd (createLogicalDevice drv dev a)) ! length (calls a) =
       vkCreateDevice dev createInfo (result_vkCreateDevice drv) \<and>
     map queueFamilyIndex (pQueueCreateInfos createInfo) =
       map word_of_int (sorted_list_of_set
         {graphicsFamily (findQueueFamilies dev), presentFamily (findQueueFamilies dev)}) \<and>
     length (pQueueCreateInfos createInfo) =
       card {graphicsFamily (findQueueFamilies dev), presentFamily (findQueueFamilies dev)} \<and>
     (\<forall>q\<in>set (pQueueCreateInfos createInfo). queueCount_req q = 1 \<and> pQueuePriorities q = [1]) \<and>
     pEnabledFeatures createInfo = [] \<and>
     (graphicsFamily (findQueueFamilies dev) = presentFamily (findQueueFamilies dev) \<longrightarrow>
        pQueueCreateInfos createInfo =
          [\<lparr>queueFamilyIndex = word_of_int (graphicsFamily (findQueueFamilies dev)),
            queueCount_req = 1, pQueuePriorities = [1]\<rparr>]) \<and>
     (graphicsFamily (findQueueFamilies dev) \<noteq> presentFamily (findQueueFamilies dev) \<longrightarrow>
        length (pQueueCreateInfos createInfo) = 2) \<and>
     0 \<le> graphicsFamily (findQueueFamilies dev) \<and>
     graphicsFamily (findQueueFamilies dev) < int (length (queueFamilies dev)) \<and>
     0 \<le> presentFamily (findQueueFamilies dev) \<and>
     presentFamily (findQueueFamilies dev) < int (length (queueFamilies dev)) \<and>
     (result_vkCreateDevice drv = VK_SUCCESS \<longrightarrow>
        fst (createLogicalDevice drv dev a) = None \<and>
        graphicsQueue (snd (createLogicalDevice drv dev a)) =
          Some (Queue (word_of_int (graphicsFamily (findQueueFamilies dev))) 0) \<and>
        presentQueue (snd (createLogicalDevice drv dev a)) =
          Some (Queue (word_of_int (presentFamily (findQueueFamilies dev))) 0)) \<and>
     (result_vkCreateDevice drv \<noteq> VK_SUCCESS \<longrightarrow>
        fst (createLogicalDevice drv dev a) = Some LogicalDeviceCreationFailed)"
proof -
  let ?ci = "deviceCreateInfo dev"
  have c: "calls (snd (createLogicalDevice drv dev a)) ! length (calls a) =
       vkCreateDevice dev ?ci (result_vkCreateDevice drv)"
    by (simp add: createLogicalDevice_eq nth_append)
  have q: "map queueFamilyIndex (pQueueCreateInfos ?ci) =
       map word_of_int (sorted_list_of_set
         {graphicsFamily (findQueueFamilies dev), presentFamily (findQueueFamilies dev)})"
    by (simp add: deviceCreateInfo_def comp_def)
  have l: "length (pQueueCreateInfos ?ci) =
       card {graphicsFamily (findQueueFamilies dev), presentFamily (findQueueFamilies dev)}"
    by (simp add: deviceCreateInfo_def sorted_list_of_pair del: sorted_list_of_set_insert_remove)
  have o: "\<forall>q\<in>set (pQueueCreateInfos ?ci). queueCount_req q = 1 \<and> pQueuePriorities q = [1]"
    by (auto simp: deviceCreateInfo_def)
  have f: "pEnabledFeatures ?ci = []"
    by (simp add: deviceCreateInfo_def)
  have e: "graphicsFamily (findQueueFamilies dev) = presentFamily (findQueueFamilies dev) \<longrightarrow>
        pQueueCreateInfos ?ci =
          [\<lparr>queueFamilyIndex = word_of_int (graphicsFamily (findQueueFamilies dev)),
            queueCount_req = 1, pQueuePriorities = [1]\<rparr>]"
    by (simp add: deviceCreateInfo_def)
  have n: "graphicsFamily (findQueueFamilies dev) \<noteq> presentFamily (findQueueFamilies dev) \<longrightarrow>
        length (pQueueCreateInfos ?ci) = 2"
    by (simp add: deviceCreateInfo_def sorted_list_of_pair)
  from assms have r: "0 \<le> graphicsFamily (findQueueFamilies dev)"
    "0 \<le> presentFamily (findQueueFamilies dev)"
    by (simp_all add: isComplete_def)
  have s: "result_vkCreateDevice drv = VK_SUCCESS \<longrightarrow>
        fst (createLogicalDevice drv dev a) = None \<and>
        graphicsQueue (snd (createLogicalDevice drv dev a)) =
          Some (Queue (word_of_int (graphicsFamily (findQueueFamilies dev))) 0) \<and>
        presentQueue (snd (createLogicalDevice drv dev a)) =
          Some (Queue (word_of_int (presentFamily (findQueueFamilies dev))) 0)"
    by (simp add: createLogicalDevice_eq)
  have t: "result_vkCreateDevice drv \<noteq> VK_SUCCESS \<longrightarrow>
        fst (createLogicalDevice drv dev a) = Some LogicalDeviceCreationFailed"
    by (simp add: createLogicalDevice_eq)
  from c q l o f e n r findQueueFamilies_range [OF assms] s t show ?thesis
    by blast
qed

lemma driverOK_fields:
  "availableLayers driverOK = [''VK_LAYER_LUNARG_standard_validation'']"
  "availableExtensions driverOK = [''VK_KHR_surface'', ''VK_KHR_xcb_surface'', ''VK_EXT_debug_report'']"
  "glfwExtensions driverOK = [''VK_KHR_surface'', ''VK_KHR_xcb_surface'']"
  "result_vkCreateInstance driverOK = VK_SUCCESS"
  "found_vkCreateDebugReportCallbackEXT driverOK"
  "result_vkCreateDebugReportCallbackEXT driverOK = VK_SUCCESS"
  "found_vkDestroyDebugReportCallbackEXT driverOK"
  "result_glfwCreateWindowSurface driverOK = VK_SUCCESS"
  "physicalDevices driverOK = [deviceA, deviceB]"
  "result_vkCreateDevice driverOK = VK_SUCCESS"
  by (simp_all add: driverOK_def)

lemma findQueueFamilies_deviceSplit:
  "findQueueFamilies deviceSplit = \<lparr>graphicsFamily = 0, presentFamily = 1\<rparr>"
  by (simp add: findQueueFamilies_def deviceSplit_def deviceA_def findQueueFamilies_body_def
      vkGetPhysicalDeviceSurfaceSupportKHR_def VK_QUEUE_GRAPHICS_BIT_def isComplete_def Let_def)

text \<open>
  Two instances. Device A has one family that serves both roles: exactly one queue
  family is requested, and both role queues are queue 0 of family 0. The device with
  a graphics family 0 and a separate presentation family 1 gets two requests, and the
  role queues are queue 0 of family 0 and queue 0 of family 1.
\<close>

theorem createLogicalDevice_request_witness:
  "(isComplete (findQueueFamilies deviceA) \<and>
    graphicsFamily (findQueueFamilies deviceA) = presentFamily (findQueueFamilies deviceA) \<and>
    (\<exists>createInfo.
       calls (snd (createLogicalDevice driverOK deviceA newApp)) ! 0 =
         vkCreateDevice deviceA createInfo VK_SUCCESS \<and>
       pQueueCreateInfos createInfo =
         [\<lparr>queueFamilyIndex = 0, queueCount_req = 1, pQueuePriorities = [1]\<rparr>] \<and>
       pEnabledFeatures createInfo = []) \<and>
    graphicsQueue (snd (createLogicalDevice driverOK deviceA newApp)) = Some (Queue 0 0) \<and>
    presentQueue (snd (createLogicalDevice driverOK deviceA newApp)) = Some (Queue 0 0)) \<and>
   (isComplete (findQueueFamilies deviceSplit) \<and>
    graphicsFamily (findQueueFamilies deviceSplit) \<noteq> presentFamily (findQueueFamilies deviceSplit) \<and>
    (\<exists>createInfo.
       calls (snd (createLogicalDevice driverOK deviceSplit newApp)) ! 0 =
         vkCreateDevice deviceSplit createInfo VK_SUCCESS \<and>
       map queueFamilyIndex (pQueueCreateInfos createInfo) = [0, 1] \<and>
       length (pQueueCreateInfos createInfo) = 2) \<and>
    graphicsQueue (snd (createLogicalDevice driverOK deviceSplit newApp)) = Some (Queue 0 0) \<and>
    presentQueue (snd (createLogicalDevice driverOK deviceSplit newApp)) = Some (Queue 1 0))"
proof (rule conjI)
  have f: "findQueueFamilies deviceA = \<lparr>graphicsFamily = 0, presentFamily = 0\<rparr>"
    by (rule findQueueFamilies_one_family) (simp_all add: deviceA_def)
  then have c: "isComplete (findQueueFamilies deviceA)"
    by (simp add: isComplete_def)
  have n: "length (calls newApp) = 0"
    by (simp add: newApp_def)
  from createLogicalDevice_request [OF c, of driverOK newApp] obtain createInfo where
    "calls (snd (createLogicalDevice driverOK deviceA newApp)) ! length (calls newApp) =
       vkCreateDevice deviceA createInfo (result_vkCreateDevice driverOK)"
    "graphicsFamily (findQueueFamilies deviceA) = presentFamily (findQueueFamilies deviceA) \<longrightarrow>
       pQueueCreateInfos createInfo =
         [\<lparr>queueFamilyIndex = word_of_int (graphicsFamily (findQueueFamilies deviceA)),
           queueCount_req = 1, pQueuePriorities = [1]\<rparr>]"
    "pEnabledFeatures createInfo = []"
    "result_vkCreateDevice driverOK = VK_SUCCESS \<longrightarrow>
        fst (createLogicalDevice driverOK deviceA newApp) = None \<and>
        graphicsQueue (snd (createLogicalDevice driverOK deviceA newApp)) =
          Some (Queue (word_of_int (graphicsFamily (findQueueFamilies deviceA))) 0) \<and>
        presentQueue (snd (createLogicalDevice driverOK deviceA newApp)) =
          Some (Queue (word_of_int (presentFamily (findQueueFamilies deviceA))) 0)"
    by blast
  then have "calls (snd (createLogicalDevice driverOK deviceA newApp)) ! 0 =
        vkCreateDevice deviceA createInfo VK_SUCCESS \<and>
      pQueueCreateInfos createInfo =
        [\<lparr>queueFamilyIndex = 0, queueCount_req = 1, pQueuePriorities = [1]\<rparr>] \<and>
      pEnabledFeatures createInfo = []"
    and "graphicsQueue (snd (createLogicalDevice driverOK deviceA newApp)) = Some (Queue 0 0)"
    and "presentQueue (snd (createLogicalDevice driverOK deviceA newApp)) = Some (Queue 0 0)"
    by (simp_all add: f n driverOK_fields)
  with c f show "isComplete (findQueueFamilies deviceA) \<and>
    graphicsFamily (findQueueFamilies deviceA) = presentFamily (findQueueFamilies deviceA) \<and>
    (\<exists>createInfo.
       calls (snd (createLogicalDevice driverOK deviceA newApp)) ! 0 =
         vkCreateDevice deviceA createInfo VK_SUCCESS \<and>
       pQueueCreateInfos createInfo =
         [\<lparr>queueFamilyIndex = 0, queueCount_req = 1, pQueuePriorities = [1]\<rparr>] \<and>
       pEnabledFeatures createInfo = []) \<and>
    graphicsQueue (snd (createLogicalDevice driverOK deviceA newApp)) = Some (Queue 0 0) \<and>
    presentQueue (snd (createLogicalDevice driverOK deviceA newApp)) = Some (Queue 0 0)"
    by auto
next
  have f: "findQueueFamilies deviceSplit = \<lparr>graphicsFamily = 0, presentFamily = 1\<rparr>"
    by (rule findQueueFamilies_deviceSplit)
  then have c: "isComplete (findQueueFamilies deviceSplit)"
    by (simp add: isComplete_def)
  have n: "length (calls newApp) = 0"
    by (simp add: newApp_def)
  from createLogicalDevice_request [OF c, of driverOK newApp] obtain createInfo where
    "calls (snd (createLogicalDevice driverOK deviceSplit newApp)) ! length (calls newApp) =
       vkCreateDevice deviceSplit createInfo (result_vkCreateDevice driverOK)"
    "map queueFamilyIndex (pQueueCreateInfos createInfo) =
       map word_of_int (sorted_list_of_set
         {graphicsFamily (findQueueFamilies deviceSplit), presentFamily (findQueueFamilies deviceSplit)})"
    "graphicsFamily (findQueueFamilies deviceSplit) \<noteq> presentFamily (findQueueFamilies deviceSplit) \<longrightarrow>
       length (pQueueCreateInfos createInfo) = 2"
    "result_vkCreateDevice driverOK = VK_SUCCESS \<longrightarrow>
        fst (createLogicalDevice driverOK deviceSplit newApp) = None \<and>
        graphicsQueue (snd (createLogicalDevice driverOK deviceSplit newApp)) =
          Some (Queue (word_of_int (graphicsFamily (findQueueFamilies deviceSplit))) 0) \<and>
        presentQueue (snd (createLogicalDevice driverOK deviceSplit newApp)) =
          Some (Queue (word_of_int (presentFamily (findQueueFamilies deviceSplit))) 0)"
    by blast
  then have "calls (snd (createLogicalDevice driverOK deviceSplit newApp)) ! 0 =
        vkCreateDevice deviceSplit createInfo VK_SUCCESS \<and>
      map queueFamilyIndex (pQueueCreateInfos createInfo) = [0, 1] \<and>
      length (pQueueCreateInfos createInfo) = 2"
    and "graphicsQueue (snd (createLogicalDevice driverOK deviceSplit newApp)) = Some (Queue 0 0)"
    and "presentQueue (snd (createLogicalDevice driverOK deviceSplit newApp)) = Some (Queue 1 0)"
    by (simp_all add: f n driverOK_fields sorted_list_of_pair)
  with c f show "isComplete (findQueueFamilies deviceSplit) \<and>
    graphicsFamily (findQueueFamilies deviceSplit) \<noteq> presentFamily (findQueueFamilies deviceSplit) \<and>
    (\<exists>createInfo.
       calls (snd (createLogicalDevice driverOK deviceSplit newApp)) ! 0 =
         vkCreateDevice deviceSplit createInfo VK_SUCCESS \<and>
       map queueFamilyIndex (pQueueCreateInfos createInfo) = [0, 1] \<and>
       length (pQueueCreateInfos createInfo) = 2) \<and>
    graphicsQueue (snd (createLogicalDevice driverOK deviceSplit newApp)) = Some (Queue 0 0) \<and>
    presentQueue (snd (createLogicalDevice driverOK deviceSplit newApp)) = Some (Queue 1 0)"
    by auto
qed

subsection \<open>Bootstrap sequence and teardown\<close>

lemma createInstance_ok:
  "createInstance drv a = (None, a') \<Longrightarrow>
   \<exists>createInfo. a' = issue (vkCreateInstance createInfo VK_SUCCESS) a"
  by (auto simp: createInstance_def Let_def split: if_splits sum.splits)

lemma setupDebugCallback_ok:
  "setupDebugCallback drv a = (None, a') \<Longrightarrow>
   a' = issue (vkCreateDebugReportCallbackEXT VK_SUCCESS) a"
  by (auto simp: setupDebugCallback_def enableValidationLayers_def Let_def split: if_splits)

lemma createSurface_ok:
  "createSurface drv a = (None, a') \<Longrightarrow> a' = issue (glfwCreateWindowSurface VK_SUCCESS) a"
  by (auto simp: createSurface_def Let_def split: if_splits)

lemma createLogicalDevice_ok:
  "createLogicalDevice drv dev a = (None, a') \<Longrightarrow>
   calls a' = calls a @
     [vkCreateDevice dev (deviceCreateInfo dev) VK_SUCCESS,
      vkGetDeviceQueue (word_of_int (graphicsFamily (findQueueFamilies dev))) 0,
      vkGetDeviceQueue (word_of_int (presentFamily (findQueueFamilies dev))) 0]"
  by (auto simp: createLogicalDevice_eq split: if_splits)

lemma initVulkan_ok:
  assumes "fst (initVulkan drv a) = None"
  shows "\<exists>createInfo dev.
     pickPhysicalDevice (physicalDevices drv) = Inr dev \<and>
     calls (snd (initVulkan drv a)) = calls a @
       [vkCreateInstance createInfo VK_SUCCESS,
        vkCreateDebugReportCallbackEXT VK_SUCCESS,
        glfwCreateWindowSurface VK_SUCCESS,
        vkCreateDevice dev (deviceCreateInfo dev) VK_SUCCESS,
        vkGetDeviceQueue (word_of_int (graphicsFamily (findQueueFamilies dev))) 0,
        vkGetDeviceQueue (word_of_int (presentFamily (findQueueFamilies dev))) 0]"
proof -
  obtain e1 a1 where s1: "createInstance drv a = (e1, a1)" by (cases "createInstance drv a")
  obtain e2 a2 where s2: "setupDebugCallback drv a1 = (e2, a2)" by (cases "setupDebugCallback drv a1")
  obtain e3 a3 where s3: "createSurface drv a2 = (e3, a3)" by (cases "createSurface drv a2")
  from assms s1 have n1: "e1 = None"
    by (cases e1) (simp_all add: initVulkan_def)
  with assms s1 s2 have n2: "e2 = None"
    by (cases e2) (simp_all add: initVulkan_def)
  with assms s1 s2 s3 n1 have n3: "e3 = None"
    by (cases e3) (simp_all add: initVulkan_def)
  from assms s1 s2 s3 n1 n2 n3 obtain dev where
    p: "pickPhysicalDevice (physicalDevices drv) = Inr dev"
    by (cases "pickPhysicalDevice (physicalDevices drv)") (simp_all add: initVulkan_def)
  let ?a4 = "a3\<lparr>physicalDevice := Some dev\<rparr>"
  from s1 s2 s3 n1 n2 n3 p have i: "initVulkan drv a = createLogicalDevice drv dev ?a4"
    by (simp add: initVulkan_def)
  with assms have "createLogicalDevice drv dev ?a4 = (None, snd (initVulkan drv a))"
    by (simp add: prod_eq_iff)
  from createLogicalDevice_ok [OF this]
  have c4: "calls (snd (initVulkan drv a)) = calls a3 @
     [vkCreateDevice dev (deviceCreateInfo dev) VK_SUCCESS,
      vkGetDeviceQueue (word_of_int (graphicsFamily (findQueueFamilies dev))) 0,
      vkGetDeviceQueue (word_of_int (presentFamily (findQueueFamilies dev))) 0]"
    by simp
  from createInstance_ok [of drv a a1] s1 n1 obtain createInfo where
    c1: "a1 = issue (vkCreateInstance createInfo VK_SUCCESS) a" by auto
  from setupDebugCallback_ok [of drv a1 a2] s2 n2
  have c2: "a2 = issue (vkCreateDebugReportCallbackEXT VK_SUCCESS) a1" by simp
  from createSurface_ok [of drv a2 a3] s3 n3
  have c3: "a3 = issue (glfwCreateWindowSurface VK_SUCCESS) a2" by simp
  from c1 c2 c3 c4 have "calls (snd (initVulkan drv a)) = calls a @
       [vkCreateInstance createInfo VK_SUCCESS,
        vkCreateDebugReportCallbackEXT VK_SUCCESS,
        glfwCreateWindowSurface VK_SUCCESS,
        vkCreateDevice dev (deviceCreateInfo dev) VK_SUCCESS,
        vkGetDeviceQueue (word_of_int (graphicsFamily (findQueueFamilies dev))) 0,
        vkGetDeviceQueue (word_of_int (presentFamily (findQueueFamilies dev))) 0]"
    by (simp add: issue_def)
  with p show ?thesis by blast
qed

lemma acquired_append: "acquired (xs @ ys) = acquired xs @ acquired ys"
  by (simp add: acquired_def List.map_filter_def)

lemma released_append: "released (xs @ ys) = released xs @ released ys"
  by (simp add: released_def List.map_filter_def)

lemma cleanup_calls:
  "calls (cleanup drv a) = calls a @
     vkDestroyDevice #
     (if found_vkDestroyDebugReportCallbackEXT drv then [vkDestroyDebugReportCallbackEXT] else []) @
     [vkDestroySurfaceKHR, vkDestroyInstance, glfwDestroyWindow, glfwTerminate]"
  by (simp add: cleanup_def issue_def Let_def)

text \<open>
  Claim C9, as amended. When the bootstrap sequence succeeds it has acquired, in this
  order, the context, the debug sink, the surface and the logical device, and has
  released nothing; \<^verbatim>\<open>cleanup\<close> then releases the logical device first, then the
  debug sink (when the driver exposes \<^verbatim>\<open>vkDestroyDebugReportCallbackEXT\<close>), then the
  surface, then the context.
\<close>

theorem cleanup_order:
  assumes "fst (initVulkan drv a) = None"
  shows "acquired (calls (snd (initVulkan drv a))) =
           acquired (calls a) @ [Context, DebugSink, Surface, LogicalDevice] \<and>
         released (calls (snd (initVulkan drv a))) = released (calls a) \<and>
         released (calls (cleanup drv (snd (initVulkan drv a)))) =
           released (calls a) @ LogicalDevice #
           (if found_vkDestroyDebugReportCallbackEXT drv then [DebugSink] else []) @
           [Surface, Context]"
proof -
  from initVulkan_ok [OF assms] obtain createInfo dev where
    c: "calls (snd (initVulkan drv a)) = calls a @
       [vkCreateInstance createInfo VK_SUCCESS,
        vkCreateDebugReportCallbackEXT VK_SUCCESS,
        glfwCreateWindowSurface VK_SUCCESS,
        vkCreateDevice dev (deviceCreateInfo dev) VK_SUCCESS,
        vkGetDeviceQueue (word_of_int (graphicsFamily (findQueueFamilies dev))) 0,
        vkGetDeviceQueue (word_of_int (presentFamily (findQueueFamilies dev))) 0]"
    by blast
  have a: "acquired (calls (snd (initVulkan drv a))) =
           acquired (calls a) @ [Context, DebugSink, Surface, LogicalDevice]"
    unfolding c acquired_append by (simp add: acquired_def List.map_filter_def)
  have r: "released (calls (snd (initVulkan drv a))) = released (calls a)"
    unfolding c released_append by (simp add: released_def List.map_filter_def)
  have "released (calls (cleanup drv (snd (initVulkan drv a)))) =
           released (calls (snd (initVulkan drv a))) @ LogicalDevice #
           (if found_vkDestroyDebugReportCallbackEXT drv then [DebugSink] else []) @
           [Surface, Context]"
    unfolding cleanup_calls released_append by (simp add: released_def List.map_filter_def)
  with a r show ?thesis by simp
qed

lemma pickPhysicalDevice_driverOK: "pickPhysicalDevice [deviceA, deviceB] = Inr deviceB"
  by (simp add: pick_two score_deviceA score_deviceB)

lemma createInstance_driverOK: "fst (createInstance driverOK a) = None"
proof -
  have "checkValidationLayerSupport driverOK"
    by (simp add: checkValidationLayerSupport_def checkValidationLayerSupport_loop_iff
        requestedLayers_def driverOK_fields)
  moreover have "getRequestedExtensions driverOK = Inr (requestedExtensions driverOK)"
    by (simp add: getRequestedExtensions_def getRequestedExtensions_loop_eq requestedExtensions_def
        VK_EXT_DEBUG_REPORT_EXTENSION_NAME_def enableValidationLayers_def driverOK_fields)
  ultimately show ?thesis
    by (simp add: createInstance_def Let_def driverOK_fields)
qed

lemma initVulkan_driverOK: "fst (initVulkan driverOK a) = None"
proof -
  obtain a1 where s1: "createInstance driverOK a = (None, a1)"
    using createInstance_driverOK [of a] by (cases "createInstance driverOK a") simp
  have s2: "setupDebugCallback driverOK a1 =
      (None, issue (vkCreateDebugReportCallbackEXT VK_SUCCESS) a1)"
    by (simp add: setupDebugCallback_def enableValidationLayers_def driverOK_fields)
  have s3: "createSurface driverOK a2 = (None, issue (glfwCreateWindowSurface VK_SUCCESS) a2)" for a2
    by (simp add: createSurface_def driverOK_fields)
  show ?thesis
    by (simp add: initVulkan_def s1 s2 s3 pickPhysicalDevice_driverOK createLogicalDevice_eq
        driverOK_fields)
qed

text \<open>
  An instance: the driver on which every step succeeds.
\<close>

theorem cleanup_order_witness:
  "fst (initVulkan driverOK newApp) = None \<and>
   acquired (calls (snd (initVulkan driverOK newApp))) = [Context, DebugSink, Surface, LogicalDevice] \<and>
   released (calls (snd (initVulkan driverOK newApp))) = [] \<and>
   released (calls (cleanup driverOK (snd (initVulkan driverOK newApp)))) =
     [LogicalDevice, DebugSink, Surface, Context]"
  using cleanup_order [OF initVulkan_driverOK, of newApp] initVulkan_driverOK [of newApp]
  by (simp add: newApp_def acquired_def released_def driverOK_fields)

text \<open>
  Claim C9 as stated fails: on the driver on which every step succeeds, the debug
  sink is released before the surface, so the order of release is not the reverse of
  the order of acquisition.
\<close>

theorem cleanup_reverse_counterexample:
  "fst (initVulkan driverOK (initWindow newApp)) = None \<and>
   acquired (calls (snd (initVulkan driverOK (initWindow newApp)))) =
     [Context, DebugSink, Surface, LogicalDevice] \<and>
   released (calls (cleanup driverOK (snd (initVulkan driverOK (initWindow newApp))))) =
     [LogicalDevice, DebugSink, Surface, Context] \<and>
   released (calls (cleanup driverOK (snd (initVulkan driverOK (initWindow newApp))))) \<noteq>
     rev (acquired (calls (snd (initVulkan driverOK (initWindow newApp)))))"
proof -
  let ?a = "snd (initVulkan driverOK (initWindow newApp))"
  have ok: "fst (initVulkan driverOK (initWindow newApp)) = None"
    by (rule initVulkan_driverOK)
  from initVulkan_ok [OF ok] obtain createInfo dev where
    c: "calls ?a = calls (initWindow newApp) @
       [vkCreateInstance createInfo VK_SUCCESS,
        vkCreateDebugReportCallbackEXT VK_SUCCESS,
        glfwCreateWindowSurface VK_SUCCESS,
        vkCreateDevice dev (deviceCreateInfo dev) VK_SUCCESS,
        vkGetDeviceQueue (word_of_int (graphicsFamily (findQueueFamilies dev))) 0,
        vkGetDeviceQueue (word_of_int (presentFamily (findQueueFamilies dev))) 0]"
    by blast
  have w: "calls (initWindow newApp) = [glfwInit, glfwCreateWindow]"
    by (simp add: initWindow_def issue_def newApp_def)
  have acq: "acquired (calls ?a) = [Context, DebugSink, Surface, LogicalDevice]"
    unfolding c w by (simp add: acquired_def List.map_filter_def)
  have rel: "released (calls (cleanup driverOK ?a)) = [LogicalDevice, DebugSink, Surface, Context]"
    unfolding cleanup_calls c w
    by (simp add: released_def List.map_filter_def driverOK_fields)
  from ok acq rel show ?thesis
    by simp
qed

end
